(* ===== verification/Prelude.thy ===== *)
theory Prelude
  imports Main "HOL-Library.Word"
begin

text \<open>
  Shared ground of the development.

  \<^item> \<open>op\<close>: an operation that threads a state and may stop with an error, which is how a
    Go function with a trailing \<open>error\<close> result is read: \<open>op_then\<close> is the
    \<open>if err != nil { return err }\<close> between two calls, \<open>op_try\<close> is a call whose error
    the caller looks at.
  \<^item> \<open>wp\<close>: what holds of the result, or of the error, and of the state an operation
    leaves, with one introduction rule per combinator (collection \<open>wp_rules\<close>).
  \<^item> \<open>keeps\<close>: an operation keeps a predicate on the state (collection \<open>keeps_rules\<close>).
  \<^item> Tables of rows as lists: lookup by \<open>find\<close>, update in place by \<open>map\<close>
    (collection \<open>table_simps\<close>).
  \<^item> 64-bit signed integers: Go's \<open>int64\<close> and Postgres' \<open>BIGINT\<close>.
\<close>

named_theorems op_simps \<open>evaluation of the operation combinators\<close>
named_theorems wp_rules \<open>weakest preconditions of the combinators\<close>
named_theorems keeps_rules \<open>preservation through the combinators\<close>
named_theorems table_simps \<open>lookups and updates of row lists\<close>

section \<open>Operations with errors\<close>

type_synonym ('s, 'e, 'a) op = "'s \<Rightarrow> ('e + 'a) \<times> 's"

definition op_ok :: "'a \<Rightarrow> ('s, 'e, 'a) op" where
  "op_ok x s = (Inr x, s)"

definition op_err :: "'e \<Rightarrow> ('s, 'e, 'a) op" where
  "op_err e s = (Inl e, s)"

definition op_then :: "('s, 'e, 'a) op \<Rightarrow> ('a \<Rightarrow> ('s, 'e, 'b) op) \<Rightarrow> ('s, 'e, 'b) op" where
  "op_then m f s = (case m s of (r, t) \<Rightarrow> (case r of Inl e \<Rightarrow> (Inl e, t) | Inr x \<Rightarrow> f x t))"

definition op_try :: "('s, 'e, 'a) op \<Rightarrow> ('e + 'a \<Rightarrow> ('s, 'e, 'b) op) \<Rightarrow> ('s, 'e, 'b) op" where
  "op_try m h s = (case m s of (r, t) \<Rightarrow> h r t)"

definition op_get :: "('s \<Rightarrow> 'a) \<Rightarrow> ('s, 'e, 'a) op" where
  "op_get f s = (Inr (f s), s)"

definition op_mod :: "('s \<Rightarrow> 's) \<Rightarrow> ('s, 'e, unit) op" where
  "op_mod f s = (Inr (), f s)"

lemmas op_defs = op_ok_def op_err_def op_then_def op_try_def op_get_def op_mod_def

lemma op_then_ok [simp, op_simps]: "op_then (op_ok x) f = f x"
  by (rule ext) (simp add: op_defs)

lemma op_then_err [simp, op_simps]: "op_then (op_err e) f = op_err e"
  by (rule ext) (simp add: op_defs)

lemma op_then_assoc: "op_then (op_then m f) g = op_then m (\<lambda>x. op_then (f x) g)"
  by (rule ext) (simp add: op_defs split: prod.splits sum.splits)

lemma op_then_Inr:
  "op_then m f s = (Inr y, u) \<longleftrightarrow> (\<exists>x t. m s = (Inr x, t) \<and> f x t = (Inr y, u))"
  by (auto simp: op_defs split: prod.splits sum.splits)

lemma op_ok_apply [op_simps]: "op_ok x s = (Inr x, s)"
  by (simp add: op_defs)

lemma op_err_apply [op_simps]: "op_err e s = (Inl e, s)"
  by (simp add: op_defs)

lemma op_then_apply_Inr [op_simps]: "m s = (Inr x, t) \<Longrightarrow> op_then m f s = f x t"
  by (simp add: op_defs)

lemma op_then_apply_Inl [op_simps]: "m s = (Inl e, t) \<Longrightarrow> op_then m f s = (Inl e, t)"
  by (simp add: op_defs)

lemma op_try_apply [op_simps]: "m s = (r, t) \<Longrightarrow> op_try m h s = h r t"
  by (simp add: op_defs)

section \<open>Weakest preconditions\<close>

text \<open>\<open>wp m Q E s\<close>: run from \<open>s\<close>, \<open>m\<close> ends with a result and a state that satisfy \<open>Q\<close>, or with an error and a state that satisfy \<open>E\<close>.\<close>

definition wp ::
  "('s, 'e, 'a) op \<Rightarrow> ('a \<Rightarrow> 's \<Rightarrow> bool) \<Rightarrow> ('e \<Rightarrow> 's \<Rightarrow> bool) \<Rightarrow> 's \<Rightarrow> bool" where
  "wp m Q E s = (case m s of (r, t) \<Rightarrow> (case r of Inl e \<Rightarrow> E e t | Inr x \<Rightarrow> Q x t))"

lemma wp_okI [wp_rules]: "Q x s \<Longrightarrow> wp (op_ok x) Q E s"
  by (simp add: wp_def op_defs)

lemma wp_errI [wp_rules]: "E e s \<Longrightarrow> wp (op_err e) Q E s"
  by (simp add: wp_def op_defs)

lemma wp_getI [wp_rules]: "Q (f s) s \<Longrightarrow> wp (op_get f) Q E s"
  by (simp add: wp_def op_defs)

lemma wp_modI [wp_rules]: "Q () (f s) \<Longrightarrow> wp (op_mod f) Q E s"
  by (simp add: wp_def op_defs)

lemma wp_thenI [wp_rules]: "wp m (\<lambda>x t. wp (f x) Q E t) E s \<Longrightarrow> wp (op_then m f) Q E s"
  by (simp add: wp_def op_defs split: prod.splits sum.splits)

lemma wp_tryI [wp_rules]:
  "wp m (\<lambda>x t. wp (h (Inr x)) Q E t) (\<lambda>e t. wp (h (Inl e)) Q E t) s \<Longrightarrow> wp (op_try m h) Q E s"
  by (simp add: wp_def op_defs split: prod.splits sum.splits)

lemma wp_ifI [wp_rules]:
  "(b \<Longrightarrow> wp m Q E s) \<Longrightarrow> (\<not> b \<Longrightarrow> wp n Q E s) \<Longrightarrow> wp (if b then m else n) Q E s"
  by simp

lemma wp_optionI [wp_rules]:
  "(x = None \<Longrightarrow> wp m Q E s) \<Longrightarrow> (\<And>y. x = Some y \<Longrightarrow> wp (f y) Q E s) \<Longrightarrow>
   wp (case x of None \<Rightarrow> m | Some y \<Rightarrow> f y) Q E s"
  by (cases x) simp_all

lemma wp_sumI [wp_rules]:
  "(\<And>e. x = Inl e \<Longrightarrow> wp (g e) Q E s) \<Longrightarrow> (\<And>y. x = Inr y \<Longrightarrow> wp (f y) Q E s) \<Longrightarrow>
   wp (case x of Inl e \<Rightarrow> g e | Inr y \<Rightarrow> f y) Q E s"
  by (cases x) simp_all

lemma wp_prodI [wp_rules]:
  "(\<And>a b. x = (a, b) \<Longrightarrow> wp (f a b) Q E s) \<Longrightarrow> wp (case x of (a, b) \<Rightarrow> f a b) Q E s"
  by (cases x) simp_all

lemma wpI:
  "(\<And>x t. m s = (Inr x, t) \<Longrightarrow> Q x t) \<Longrightarrow> (\<And>e t. m s = (Inl e, t) \<Longrightarrow> E e t) \<Longrightarrow> wp m Q E s"
  by (simp add: wp_def split: prod.splits sum.splits)

lemma wp_Inr: "wp m Q E s \<Longrightarrow> m s = (Inr x, t) \<Longrightarrow> Q x t"
  by (simp add: wp_def)

lemma wp_Inl: "wp m Q E s \<Longrightarrow> m s = (Inl e, t) \<Longrightarrow> E e t"
  by (simp add: wp_def)

lemma wp_mono:
  "wp m Q E s \<Longrightarrow> (\<And>x t. Q x t \<Longrightarrow> Q' x t) \<Longrightarrow> (\<And>e t. E e t \<Longrightarrow> E' e t) \<Longrightarrow> wp m Q' E' s"
  by (simp add: wp_def split: prod.splits sum.splits)

lemma wp_state: "wp m (\<lambda>_. P) (\<lambda>_. P) s \<longleftrightarrow> P (snd (m s))"
  by (simp add: wp_def split: prod.splits sum.splits)

section \<open>Preservation\<close>

definition keeps :: "('s \<Rightarrow> bool) \<Rightarrow> ('s, 'e, 'a) op \<Rightarrow> bool" where
  "keeps I m \<longleftrightarrow> (\<forall>s. I s \<longrightarrow> I (snd (m s)))"

lemma keepsI: "(\<And>s r t. I s \<Longrightarrow> m s = (r, t) \<Longrightarrow> I t) \<Longrightarrow> keeps I m"
  unfolding keeps_def by (metis prod.collapse)

lemma keepsD: "keeps I m \<Longrightarrow> I s \<Longrightarrow> m s = (r, t) \<Longrightarrow> I t"
  unfolding keeps_def by (metis snd_conv)

lemma keeps_wp: "(\<And>s. I s \<Longrightarrow> wp m (\<lambda>_. I) (\<lambda>_. I) s) \<Longrightarrow> keeps I m"
  by (simp add: wp_state keeps_def)

lemma wp_keeps: "keeps I m \<Longrightarrow> I s \<Longrightarrow> wp m (\<lambda>_. I) (\<lambda>_. I) s"
  by (simp add: wp_state keeps_def)

lemma keeps_ok [keeps_rules, intro]: "keeps I (op_ok x)"
  by (simp add: keeps_def op_defs)

lemma keeps_err [keeps_rules, intro]: "keeps I (op_err e)"
  by (simp add: keeps_def op_defs)

lemma keeps_get [keeps_rules, intro]: "keeps I (op_get f)"
  by (simp add: keeps_def op_defs)

lemma keeps_then [keeps_rules, intro]:
  "keeps I m \<Longrightarrow> (\<And>x. keeps I (f x)) \<Longrightarrow> keeps I (op_then m f)"
  by (rule keepsI) (auto simp: op_then_def split: prod.splits sum.splits dest: keepsD)

lemma keeps_try [keeps_rules, intro]:
  "keeps I m \<Longrightarrow> (\<And>r. keeps I (h r)) \<Longrightarrow> keeps I (op_try m h)"
  by (rule keepsI) (auto simp: op_try_def split: prod.splits dest: keepsD)

section \<open>Row lists\<close>

definition update_where :: "('r \<Rightarrow> bool) \<Rightarrow> ('r \<Rightarrow> 'r) \<Rightarrow> 'r list \<Rightarrow> 'r list" where
  "update_where P f rs = map (\<lambda>r. if P r then f r else r) rs"

definition count_where :: "('r \<Rightarrow> bool) \<Rightarrow> 'r list \<Rightarrow> nat" where
  "count_where P rs = length (filter P rs)"

lemma find_Some_iff_in: "find P xs = Some x \<Longrightarrow> x \<in> set xs \<and> P x"
  by (auto simp: find_Some_iff)

lemma find_None_in: "find P xs = None \<longleftrightarrow> (\<forall>x \<in> set xs. \<not> P x)"
  by (auto simp: find_None_iff)

lemma find_append [table_simps]:
  "find P (xs @ ys) = (case find P xs of None \<Rightarrow> find P ys | Some x \<Rightarrow> Some x)"
  by (induction xs) auto

lemma find_update_where [table_simps]:
  "(\<And>r. K (f r) = K r) \<Longrightarrow>
   find K (update_where P f xs) = map_option (\<lambda>r. if P r then f r else r) (find K xs)"
  by (induction xs) (auto simp: update_where_def)

lemma find_distinct:
  assumes "distinct (map k xs)" and "x \<in> set xs"
  shows "find (\<lambda>r. k r = k x) xs = Some x"
  using assms by (induction xs) (auto simp: image_iff)

lemma in_update_where:
  "q \<in> set (update_where P f xs) \<longleftrightarrow> (\<exists>r \<in> set xs. q = (if P r then f r else r))"
  by (auto simp: update_where_def)

lemma ball_update_where [table_simps]:
  "(\<forall>q \<in> set (update_where P f xs). Q q) \<longleftrightarrow> (\<forall>r \<in> set xs. Q (if P r then f r else r))"
  unfolding in_update_where [symmetric] Ball_def by (auto simp: in_update_where)

lemma length_update_where [simp, table_simps]: "length (update_where P f xs) = length xs"
  by (simp add: update_where_def)

lemma update_where_append [table_simps]:
  "update_where P f (xs @ ys) = update_where P f xs @ update_where P f ys"
  by (simp add: update_where_def)

lemma map_update_where [table_simps]:
  "(\<And>r. g (f r) = g r) \<Longrightarrow> map g (update_where P f xs) = map g xs"
  by (simp add: update_where_def)

lemma update_where_id: "(\<And>r. r \<in> set xs \<Longrightarrow> \<not> P r) \<Longrightarrow> update_where P f xs = xs"
  by (induction xs) (auto simp: update_where_def)

lemma update_where_idem:
  "(\<And>r. P r \<Longrightarrow> \<not> P (f r)) \<Longrightarrow> update_where P f (update_where P f xs) = update_where P f xs"
  by (induction xs) (auto simp: update_where_def)

lemma count_where_0: "count_where P xs = 0 \<longleftrightarrow> (\<forall>x \<in> set xs. \<not> P x)"
  by (induction xs) (auto simp: count_where_def)

lemma distinct_map_unique:
  "distinct (map k xs) \<Longrightarrow> x \<in> set xs \<Longrightarrow> y \<in> set xs \<Longrightarrow> k x = k y \<Longrightarrow> x = y"
  by (simp add: distinct_map inj_on_def)

section \<open>Signed 64-bit integers\<close>

type_synonym int64 = "64 word"

lemma sint64_upper: "sint (a :: int64) < 2 ^ 63"
  using sint_lt [of a] by simp

lemma sint64_lower: "- (2 ^ 63) \<le> sint (a :: int64)"
  using sint_ge [of a] by simp

text \<open>The sum of two non-negative \<open>int64\<close>: exact below the bound, negative beyond it.\<close>

lemma sint64_add_exact:
  assumes "- (2 ^ 63) \<le> sint a + sint (b :: int64)" and "sint a + sint b < 2 ^ 63"
  shows "sint (a + b) = sint a + sint b"
proof -
  have "sint (a + b) = signed_take_bit 63 (sint a + sint b)"
    by (simp add: sint_word_ariths(1))
  also have "\<dots> = sint a + sint b"
    using assms by (intro signed_take_bit_int_eq_self) auto
  finally show ?thesis .
qed

lemma sint64_of_int:
  assumes "- (2 ^ 63) \<le> i" and "i < 2 ^ 63"
  shows "sint (word_of_int i :: int64) = i"
  using assms by (simp add: signed_of_int signed_take_bit_int_eq_self)

end
