(* ===== verification/GoLib.thy ===== *)
theory GoLib
  imports Prelude
begin

text \<open>
  The parts of Go's standard library that the program computes with, on Go strings: a
  \<open>string\<close> is a list of bytes (\<open>char\<close>), so \<open>length\<close> is Go's \<open>len\<close>.

  \<^item> \<open>trim_space\<close>: \<open>strings.TrimSpace\<close>. A leading (trailing) rune is removed when the
    bytes start (end) with the UTF-8 encoding of one of the 25 characters with the Unicode
    White\_Space property; no other byte sequence decodes to one of them.
  \<^item> \<open>to_upper\<close>, \<open>to_lower\<close>: the ASCII fast paths of \<open>strings.ToUpper\<close> and
    \<open>strings.ToLower\<close>; for a string with a byte above 127 the Unicode case tables are a
    parameter.
  \<^item> \<open>hex_encode\<close> (\<open>encoding/hex\<close>), \<open>format_int\<close> and \<open>atoi\<close> (\<open>strconv\<close>),
    \<open>split_comma\<close> (\<open>strings.Split\<close>), \<open>has_prefix\<close>, \<open>trim_prefix\<close>.
  \<^item> \<open>json_string\<close>: how \<open>encoding/json\<close> writes a string.
\<close>

section \<open>Bytes\<close>

definition byte :: "char \<Rightarrow> nat" where
  "byte c = of_char c"

definition is_ascii :: "string \<Rightarrow> bool" where
  "is_ascii s \<longleftrightarrow> list_all (\<lambda>c. byte c < 128) s"

lemma byte_less [simp]: "byte c < 256"
  by (simp add: byte_def)

lemma byte_inj [simp]: "byte c = byte d \<longleftrightarrow> c = d"
  by (simp add: byte_def)

lemma byte_char_of [simp]: "n < 256 \<Longrightarrow> byte (char_of n) = n"
  by (simp add: byte_def of_char_of)

lemma byte_char_of_diff [simp]: "byte (char_of (byte c - n)) = byte c - n"
  by (rule byte_char_of) (use byte_less [of c] in linarith)

lemma is_ascii_simps [simp]:
  "is_ascii []" "is_ascii (c # s) \<longleftrightarrow> byte c < 128 \<and> is_ascii s"
  "is_ascii (s @ t) \<longleftrightarrow> is_ascii s \<and> is_ascii t"
  by (auto simp: is_ascii_def)

section \<open>Prefixes\<close>

fun strip_prefix :: "'a list \<Rightarrow> 'a list \<Rightarrow> 'a list option" where
  "strip_prefix [] s = Some s"
| "strip_prefix (a # as) [] = None"
| "strip_prefix (a # as) (b # bs) = (if a = b then strip_prefix as bs else None)"

definition has_prefix :: "string \<Rightarrow> string \<Rightarrow> bool" where
  "has_prefix s p \<longleftrightarrow> strip_prefix p s \<noteq> None"

definition trim_prefix :: "string \<Rightarrow> string \<Rightarrow> string" where
  "trim_prefix s p = (case strip_prefix p s of None \<Rightarrow> s | Some r \<Rightarrow> r)"

lemma strip_prefix_Some: "strip_prefix p s = Some r \<longleftrightarrow> s = p @ r"
  by (induction p s rule: strip_prefix.induct) auto

lemma strip_prefix_None: "strip_prefix p s = None \<longleftrightarrow> (\<nexists>r. s = p @ r)"
  by (metis not_None_eq strip_prefix_Some)

lemma strip_prefix_append [simp]: "strip_prefix p (p @ s) = Some s"
  by (simp add: strip_prefix_Some)

lemma has_prefix_iff: "has_prefix s p \<longleftrightarrow> (\<exists>r. s = p @ r)"
  by (auto simp: has_prefix_def strip_prefix_Some)

lemma trim_prefix_append [simp]: "trim_prefix (p @ s) p = s"
  by (simp add: trim_prefix_def)

section \<open>strings.TrimSpace\<close>

definition go_spaces :: "string list" where
  "go_spaces =
     [[CHR 0x09], [CHR 0x0A], [CHR 0x0B], [CHR 0x0C], [CHR 0x0D], [CHR 0x20],
      [CHR 0xC2, CHR 0x85], [CHR 0xC2, CHR 0xA0], [CHR 0xE1, CHR 0x9A, CHR 0x80],
      [CHR 0xE2, CHR 0x80, CHR 0x80], [CHR 0xE2, CHR 0x80, CHR 0x81],
      [CHR 0xE2, CHR 0x80, CHR 0x82], [CHR 0xE2, CHR 0x80, CHR 0x83],
      [CHR 0xE2, CHR 0x80, CHR 0x84], [CHR 0xE2, CHR 0x80, CHR 0x85],
      [CHR 0xE2, CHR 0x80, CHR 0x86], [CHR 0xE2, CHR 0x80, CHR 0x87],
      [CHR 0xE2, CHR 0x80, CHR 0x88], [CHR 0xE2, CHR 0x80, CHR 0x89],
      [CHR 0xE2, CHR 0x80, CHR 0x8A], [CHR 0xE2, CHR 0x80, CHR 0xA8],
      [CHR 0xE2, CHR 0x80, CHR 0xA9], [CHR 0xE2, CHR 0x80, CHR 0xAF],
      [CHR 0xE2, CHR 0x81, CHR 0x9F], [CHR 0xE3, CHR 0x80, CHR 0x80]]"

fun strip_any :: "'a list list \<Rightarrow> 'a list \<Rightarrow> 'a list option" where
  "strip_any [] s = None"
| "strip_any (p # ps) s = (case strip_prefix p s of Some r \<Rightarrow> Some r | None \<Rightarrow> strip_any ps s)"

fun trim_with :: "'a list list \<Rightarrow> 'a list \<Rightarrow> 'a list" where
  "trim_with ps s =
     (case strip_any ps s of
        None \<Rightarrow> s
      | Some r \<Rightarrow> if length r < length s then trim_with ps r else s)"

declare trim_with.simps [simp del]

definition trim_left :: "string \<Rightarrow> string" where
  "trim_left s = trim_with go_spaces s"

definition trim_right :: "string \<Rightarrow> string" where
  "trim_right s = rev (trim_with (map rev go_spaces) (rev s))"

definition trim_space :: "string \<Rightarrow> string" where
  "trim_space s = trim_right (trim_left s)"

lemma strip_any_Some: "strip_any ps s = Some r \<Longrightarrow> \<exists>p \<in> set ps. s = p @ r"
  by (induction ps) (auto split: option.splits simp: strip_prefix_Some)

lemma strip_any_None: "strip_any ps s = None \<longleftrightarrow> (\<forall>p \<in> set ps. \<forall>r. s \<noteq> p @ r)"
  by (induction ps) (auto split: option.splits simp: strip_prefix_Some strip_prefix_None)

text \<open>What trimming leaves: a suffix that starts with no space.\<close>

lemma trim_with_suffix: "\<exists>q. s = q @ trim_with ps s"
proof (induction ps s rule: trim_with.induct)
  case (1 ps s)
  show ?case
  proof (cases "strip_any ps s")
    case None
    then show ?thesis by (simp add: trim_with.simps)
  next
    case (Some r)
    then obtain p where p: "s = p @ r" using strip_any_Some by blast
    show ?thesis
    proof (cases "length r < length s")
      case True
      with 1 Some obtain q where "r = q @ trim_with ps r" by blast
      moreover have "trim_with ps s = trim_with ps r"
        using Some True by (simp add: trim_with.simps [of ps s])
      ultimately have "s = (p @ q) @ trim_with ps s" using p by simp
      then show ?thesis by blast
    next
      case False
      with Some show ?thesis by (simp add: trim_with.simps [of ps s])
    qed
  qed
qed

lemma trim_with_clean:
  assumes "[] \<notin> set ps"
  shows "strip_any ps (trim_with ps s) = None"
  using assms
proof (induction ps s rule: trim_with.induct)
  case (1 ps s)
  show ?case
  proof (cases "strip_any ps s")
    case None
    then show ?thesis by (simp add: trim_with.simps)
  next
    case (Some r)
    then obtain p where "p \<in> set ps" "s = p @ r" using strip_any_Some by blast
    with 1(2) have len: "length r < length s" by (cases p) auto
    with 1 Some show ?thesis by (simp add: trim_with.simps [of ps s])
  qed
qed

lemma trim_with_id: "strip_any ps s = None \<Longrightarrow> trim_with ps s = s"
  by (simp add: trim_with.simps)

lemma go_spaces_nonempty [simp]: "[] \<notin> set go_spaces" "[] \<notin> rev ` set go_spaces"
  by (simp_all add: go_spaces_def)

lemma trim_left_clean: "strip_any go_spaces (trim_left s) = None"
  unfolding trim_left_def by (rule trim_with_clean) simp

lemma trim_right_clean: "strip_any (map rev go_spaces) (rev (trim_right s)) = None"
  unfolding trim_right_def rev_rev_ident by (rule trim_with_clean) simp

lemma trim_right_prefix: "\<exists>q. s = trim_right s @ q"
proof -
  obtain q where "rev s = q @ trim_with (map rev go_spaces) (rev s)"
    using trim_with_suffix by blast
  then have "s = rev (trim_with (map rev go_spaces) (rev s)) @ rev q"
    by (metis rev_append rev_rev_ident)
  then show ?thesis unfolding trim_right_def by blast
qed

text \<open>Removing trailing spaces uncovers no leading one.\<close>

lemma trim_right_keeps_left:
  assumes "strip_any go_spaces s = None"
  shows "strip_any go_spaces (trim_right s) = None"
proof -
  obtain q where q: "s = trim_right s @ q" using trim_right_prefix by blast
  have "trim_right s \<noteq> p @ r" if "p \<in> set go_spaces" for p r
  proof
    assume "trim_right s = p @ r"
    with q have "s = p @ (r @ q)" by simp
    with assms that show False unfolding strip_any_None by blast
  qed
  then show ?thesis by (simp add: strip_any_None)
qed

lemma trim_space_idem [simp]: "trim_space (trim_space s) = trim_space s"
proof -
  have l: "trim_left (trim_space s) = trim_space s"
    unfolding trim_left_def trim_space_def
    by (intro trim_with_id trim_right_keeps_left trim_left_clean [unfolded trim_left_def])
  have "trim_right (trim_space s) = trim_space s"
    unfolding trim_space_def trim_right_def [of "trim_right (trim_left s)"]
    by (simp add: trim_with_id [OF trim_right_clean])
  with l show ?thesis by (simp add: trim_space_def)
qed

lemma trim_space_infix: "\<exists>p q. s = p @ trim_space s @ q"
proof -
  obtain p where p: "s = p @ trim_left s"
    using trim_with_suffix [of s] by (metis trim_left_def)
  obtain q where "trim_left s = trim_space s @ q"
    using trim_right_prefix by (auto simp: trim_space_def)
  with p have "s = p @ trim_space s @ q" by simp
  then show ?thesis by blast
qed

lemma length_trim_space: "length (trim_space s) \<le> length s"
proof -
  obtain p q where "s = p @ trim_space s @ q" using trim_space_infix by blast
  then have "length s = length p + length (trim_space s) + length q"
    by (metis add.assoc length_append)
  then show ?thesis by simp
qed

lemma trim_space_ascii: "is_ascii s \<Longrightarrow> is_ascii (trim_space s)"
  by (metis is_ascii_simps(3) trim_space_infix)

section \<open>strings.ToUpper, strings.ToLower\<close>

definition upper_char :: "char \<Rightarrow> char" where
  "upper_char c = (if 97 \<le> byte c \<and> byte c \<le> 122 then char_of (byte c - 32) else c)"

definition lower_char :: "char \<Rightarrow> char" where
  "lower_char c = (if 65 \<le> byte c \<and> byte c \<le> 90 then char_of (byte c + 32) else c)"

definition to_upper :: "(string \<Rightarrow> string) \<Rightarrow> string \<Rightarrow> string" where
  "to_upper unicode s = (if is_ascii s then map upper_char s else unicode s)"

definition to_lower :: "(string \<Rightarrow> string) \<Rightarrow> string \<Rightarrow> string" where
  "to_lower unicode s = (if is_ascii s then map lower_char s else unicode s)"

lemma byte_upper: "byte (upper_char c) = (if 97 \<le> byte c \<and> byte c \<le> 122 then byte c - 32 else byte c)"
  by (simp add: upper_char_def)

lemma upper_char_idem [simp]: "upper_char (upper_char c) = upper_char c"
proof -
  have "byte (upper_char (upper_char c)) = byte (upper_char c)"
    by (auto simp: byte_upper)
  then show ?thesis by simp
qed

lemma is_ascii_upper [simp]: "is_ascii (map upper_char s) \<longleftrightarrow> is_ascii s"
  by (induction s) (auto simp: byte_upper)

lemma to_upper_ascii: "is_ascii s \<Longrightarrow> to_upper u s = map upper_char s"
  by (simp add: to_upper_def)

lemma to_upper_idem: "is_ascii s \<Longrightarrow> to_upper u (to_upper u s) = to_upper u s"
  by (simp add: to_upper_def comp_def)

lemma to_upper_is_ascii: "is_ascii s \<Longrightarrow> is_ascii (to_upper u s)"
  by (simp add: to_upper_def)

lemma length_to_upper: "is_ascii s \<Longrightarrow> length (to_upper u s) = length s"
  by (simp add: to_upper_def)

text \<open>Upper-casing an ASCII letter neither makes nor removes a space.\<close>

definition ascii_space :: "char \<Rightarrow> bool" where
  "ascii_space c \<longleftrightarrow>
     c \<in> {CHR 0x09, CHR 0x0A, CHR 0x0B, CHR 0x0C, CHR 0x0D, CHR 0x20}"

lemma ascii_not_high:
  assumes "byte c < 128"
  shows "c \<noteq> CHR 0xC2" "c \<noteq> CHR 0xE1" "c \<noteq> CHR 0xE2" "c \<noteq> CHR 0xE3"
    "c \<noteq> CHR 0x80" "c \<noteq> CHR 0x81" "c \<noteq> CHR 0x82" "c \<noteq> CHR 0x83" "c \<noteq> CHR 0x84"
    "c \<noteq> CHR 0x85" "c \<noteq> CHR 0x86" "c \<noteq> CHR 0x87" "c \<noteq> CHR 0x88" "c \<noteq> CHR 0x89"
    "c \<noteq> CHR 0x8A" "c \<noteq> CHR 0xA0" "c \<noteq> CHR 0xA8" "c \<noteq> CHR 0xA9" "c \<noteq> CHR 0xAF"
    "c \<noteq> CHR 0x9F"
  using assms by (auto simp: byte_def)

lemma ascii_space_byte: "ascii_space c \<longleftrightarrow> byte c \<in> {9, 10, 11, 12, 13, 32}"
proof -
  have "(byte c \<in> {9, 10, 11, 12, 13, 32}) =
        (byte c \<in> byte ` {CHR 0x09, CHR 0x0A, CHR 0x0B, CHR 0x0C, CHR 0x0D, CHR 0x20})"
    by (simp add: byte_def)
  also have "\<dots> = ascii_space c"
    unfolding ascii_space_def by (simp only: image_insert image_empty insert_iff byte_inj empty_iff)
  finally show ?thesis by simp
qed

lemma ascii_space_upper [simp]: "ascii_space (upper_char c) \<longleftrightarrow> ascii_space c"
  by (auto simp: ascii_space_byte byte_upper)

lemma strip_any_None_all: "strip_any ps s = None \<longleftrightarrow> list_all (\<lambda>p. strip_prefix p s = None) ps"
  by (induction ps) (auto split: option.splits)

lemma strip_any_ascii:
  assumes "byte c < 128"
  shows "strip_any go_spaces (c # s) = None \<longleftrightarrow> \<not> ascii_space c"
  unfolding strip_any_None_all go_spaces_def ascii_space_def
  by (simp add: ascii_not_high [OF assms] ascii_not_high [OF assms, symmetric])

lemma strip_any_rev_ascii:
  assumes "byte c < 128"
  shows "strip_any (map rev go_spaces) (c # s) = None \<longleftrightarrow> \<not> ascii_space c"
  unfolding strip_any_None_all go_spaces_def ascii_space_def
  by (simp add: ascii_not_high [OF assms] ascii_not_high [OF assms, symmetric])

lemma strip_any_spaces_Nil [simp]:
  "strip_any go_spaces [] = None" "strip_any (map rev go_spaces) [] = None"
  by (simp_all add: strip_any_None_all go_spaces_def)

lemma byte_upper_ascii: "byte c < 128 \<Longrightarrow> byte (upper_char c) < 128"
  by (auto simp: byte_upper)

lemma strip_any_upper:
  assumes "is_ascii s"
  shows "strip_any go_spaces (map upper_char s) = None \<longleftrightarrow> strip_any go_spaces s = None"
  using assms by (cases s) (simp_all add: strip_any_ascii byte_upper_ascii)

lemma strip_any_rev_upper:
  assumes "is_ascii s"
  shows "strip_any (map rev go_spaces) (map upper_char s) = None \<longleftrightarrow>
         strip_any (map rev go_spaces) s = None"
  using assms by (cases s) (simp_all add: strip_any_rev_ascii byte_upper_ascii)

lemma rev_ascii: "is_ascii (rev s) = is_ascii s"
  by (auto simp: is_ascii_def)

lemma trim_space_clean_id:
  assumes "strip_any go_spaces s = None" and "strip_any (map rev go_spaces) (rev s) = None"
  shows "trim_space s = s"
  using assms by (simp add: trim_space_def trim_left_def trim_right_def trim_with_id)

lemma trim_space_clean:
  "strip_any go_spaces (trim_space s) = None"
  "strip_any (map rev go_spaces) (rev (trim_space s)) = None"
  unfolding trim_space_def
  by (rule trim_right_keeps_left [OF trim_left_clean], rule trim_right_clean)

lemma trim_space_upper:
  assumes "is_ascii s"
  shows "trim_space (to_upper u (trim_space s)) = to_upper u (trim_space s)"
proof (rule trim_space_clean_id)
  let ?t = "trim_space s"
  have a: "is_ascii ?t" "is_ascii (rev ?t)"
    using assms by (simp_all add: trim_space_ascii rev_ascii)
  have up: "to_upper u ?t = map upper_char ?t" using a by (simp add: to_upper_def)
  show "strip_any go_spaces (to_upper u ?t) = None"
    unfolding up using trim_space_clean(1) a(1) by (simp add: strip_any_upper)
  show "strip_any (map rev go_spaces) (rev (to_upper u ?t)) = None"
    unfolding up rev_map using trim_space_clean(2) a(2) by (simp add: strip_any_rev_upper)
qed

section \<open>encoding/hex\<close>

definition hex_char :: "nat \<Rightarrow> char" where
  "hex_char n = ''0123456789abcdef'' ! n"

lemma byte_nibble [simp]: "byte c div 16 < 16"
  by (rule less_mult_imp_div_less) simp

definition hex_encode :: "string \<Rightarrow> string" where
  "hex_encode s = concat (map (\<lambda>c. [hex_char (byte c div 16), hex_char (byte c mod 16)]) s)"

lemma hex_char_inj:
  assumes "m < 16" and "n < 16"
  shows "hex_char m = hex_char n \<longleftrightarrow> m = n"
proof -
  have "distinct ''0123456789abcdef''" by simp
  with assms show ?thesis unfolding hex_char_def by (subst nth_eq_iff_index_eq) auto
qed

lemma hex_encode_simps [simp]:
  "hex_encode [] = []"
  "hex_encode (c # s) = hex_char (byte c div 16) # hex_char (byte c mod 16) # hex_encode s"
  by (simp_all add: hex_encode_def)

lemma length_hex_encode [simp]: "length (hex_encode s) = 2 * length s"
  by (induction s) auto

lemma hex_encode_inj [simp]: "hex_encode s = hex_encode t \<longleftrightarrow> s = t"
proof
  show "hex_encode s = hex_encode t \<Longrightarrow> s = t"
  proof (induction s arbitrary: t)
    case Nil
    then show ?case by (cases t) auto
  next
    case (Cons c s)
    then obtain d t' where t: "t = d # t'" by (cases t) auto
    from Cons.prems t have "byte c div 16 = byte d div 16" "byte c mod 16 = byte d mod 16"
      by (auto simp: hex_char_inj)
    then have "byte c = byte d" by (metis div_mult_mod_eq)
    with Cons t show ?case by simp
  qed
qed simp

section \<open>strconv\<close>

definition digit_char :: "nat \<Rightarrow> char" where
  "digit_char n = char_of (48 + n)"

definition is_digit :: "char \<Rightarrow> bool" where
  "is_digit c \<longleftrightarrow> 48 \<le> byte c \<and> byte c \<le> 57"

fun format_nat :: "nat \<Rightarrow> string" where
  "format_nat n =
     (if n < 10 then [digit_char n] else format_nat (n div 10) @ [digit_char (n mod 10)])"

declare format_nat.simps [simp del]

definition format_int :: "int \<Rightarrow> string" where
  "format_int i = (if i < 0 then CHR ''-'' # format_nat (nat (- i)) else format_nat (nat i))"

definition digits_value :: "string \<Rightarrow> nat" where
  "digits_value ds = foldl (\<lambda>a c. 10 * a + (byte c - 48)) 0 ds"

definition atoi :: "string \<Rightarrow> int option" where
  "atoi s =
     (let neg = (s \<noteq> [] \<and> hd s = CHR ''-'');
          ds = (if s \<noteq> [] \<and> (hd s = CHR ''-'' \<or> hd s = CHR ''+'') then tl s else s);
          v = (if neg then - int (digits_value ds) else int (digits_value ds))
      in if ds = [] \<or> \<not> list_all is_digit ds then None
         else if v < - (2 ^ 63) \<or> 2 ^ 63 \<le> v then None
         else Some v)"

lemma byte_digit_char: "n < 10 \<Longrightarrow> byte (digit_char n) = 48 + n"
  by (simp add: digit_char_def)

lemma is_digit_char: "n < 10 \<Longrightarrow> is_digit (digit_char n)"
  by (simp add: is_digit_def byte_digit_char)

lemma format_nat_digits: "list_all is_digit (format_nat n) \<and> format_nat n \<noteq> []"
proof (induction n rule: format_nat.induct)
  case (1 n)
  then show ?case by (cases "n < 10") (auto simp: format_nat.simps [of n] is_digit_char)
qed

lemma digits_value_snoc: "digits_value (ds @ [c]) = 10 * digits_value ds + (byte c - 48)"
  by (simp add: digits_value_def)

lemma digits_value_format: "digits_value (format_nat n) = n"
proof (induction n rule: format_nat.induct)
  case (1 n)
  show ?case
  proof (cases "n < 10")
    case True
    then show ?thesis by (simp add: format_nat.simps [of n] digits_value_def byte_digit_char)
  next
    case False
    then have "digits_value (format_nat n) = 10 * (n div 10) + n mod 10"
      using 1 by (simp add: format_nat.simps [of n] digits_value_snoc byte_digit_char)
    then show ?thesis by simp
  qed
qed

lemma format_nat_hd: "is_digit (hd (format_nat n))"
  using format_nat_digits [of n] by (cases "format_nat n") auto

lemma format_nat_no_sign: "hd (format_nat n) \<noteq> CHR ''-''" "hd (format_nat n) \<noteq> CHR ''+''"
  using format_nat_hd [of n] by (auto simp: is_digit_def byte_def)

lemma atoi_format_int:
  assumes "- (2 ^ 63) \<le> i" and "i < 2 ^ 63"
  shows "atoi (format_int i) = Some i"
  using assms format_nat_digits [of "nat i"] format_nat_digits [of "nat (- i)"]
  by (auto simp: atoi_def format_int_def format_nat_no_sign digits_value_format)

lemma format_nat_inj [simp]: "format_nat m = format_nat n \<longleftrightarrow> m = n"
  by (metis digits_value_format)

lemma format_int_inj [simp]: "format_int i = format_int j \<longleftrightarrow> i = j"
proof
  assume e: "format_int i = format_int j"
  show "i = j"
  proof (cases "i < 0 \<longleftrightarrow> j < 0")
    case True
    with e show ?thesis by (auto simp: format_int_def split: if_splits)
  next
    case False
    with e format_nat_no_sign show ?thesis
      by (auto simp: format_int_def split: if_splits) (metis list.sel(1))+
  qed
qed simp

lemma format_int_chars: "c \<in> set (format_int i) \<Longrightarrow> is_digit c \<or> c = CHR ''-''"
  using format_nat_digits [of "nat i"] format_nat_digits [of "nat (- i)"]
  by (auto simp: format_int_def list_all_iff split: if_splits)

section \<open>strings.Split on a comma\<close>

fun split_comma :: "string \<Rightarrow> string list" where
  "split_comma [] = [[]]"
| "split_comma (c # s) =
     (if c = CHR '','' then [] # split_comma s
      else (case split_comma s of [] \<Rightarrow> [[c]] | p # ps \<Rightarrow> (c # p) # ps))"

lemma split_comma_nonempty [simp]: "split_comma s \<noteq> []"
  by (induction s) (auto split: list.splits)

lemma split_comma_no_comma: "p \<in> set (split_comma s) \<Longrightarrow> CHR '','' \<notin> set p"
  by (induction s arbitrary: p) (auto split: list.splits if_splits)

lemma split_comma_id: "CHR '','' \<notin> set p \<Longrightarrow> split_comma p = [p]"
  by (induction p) auto

lemma split_comma_append:
  "CHR '','' \<notin> set p \<Longrightarrow> split_comma (p @ CHR '','' # s) = p # split_comma s"
  by (induction p) auto

section \<open>Strings of encoding/json\<close>

text \<open>
  The width of the UTF-8 encoding a byte string starts with, 0 where it starts with no valid
  one (\<open>utf8.DecodeRuneInString\<close> with its accept ranges).
\<close>

definition in_range :: "char list \<Rightarrow> nat \<Rightarrow> nat \<Rightarrow> nat \<Rightarrow> bool" where
  "in_range s i lo hi \<longleftrightarrow> i < length s \<and> lo \<le> byte (s ! i) \<and> byte (s ! i) \<le> hi"

fun rune_width :: "string \<Rightarrow> nat" where
  "rune_width [] = 0"
| "rune_width (c # s) =
     (let b = byte c in
      if b < 0x80 then 1
      else if 0xC2 \<le> b \<and> b \<le> 0xDF then (if in_range s 0 0x80 0xBF then 2 else 0)
      else if 0xE0 \<le> b \<and> b \<le> 0xEF then
        (if in_range s 0 (if b = 0xE0 then 0xA0 else 0x80) (if b = 0xED then 0x9F else 0xBF)
            \<and> in_range s 1 0x80 0xBF then 3 else 0)
      else if 0xF0 \<le> b \<and> b \<le> 0xF4 then
        (if in_range s 0 (if b = 0xF0 then 0x90 else 0x80) (if b = 0xF4 then 0x8F else 0xBF)
            \<and> in_range s 1 0x80 0xBF \<and> in_range s 2 0x80 0xBF then 4 else 0)
      else 0)"

text \<open>How an ASCII byte is written (\<open>htmlSafeSet\<close>: the HTML characters are escaped too).\<close>

definition json_escape :: "char \<Rightarrow> string" where
  "json_escape c =
     (if c = CHR 0x22 then [CHR 0x5C, CHR 0x22]
      else if c = CHR 0x5C then [CHR 0x5C, CHR 0x5C]
      else if c = CHR 0x08 then [CHR 0x5C, CHR ''b'']
      else if c = CHR 0x0C then [CHR 0x5C, CHR ''f'']
      else if c = CHR 0x0A then [CHR 0x5C, CHR ''n'']
      else if c = CHR 0x0D then [CHR 0x5C, CHR ''r'']
      else if c = CHR 0x09 then [CHR 0x5C, CHR ''t'']
      else if byte c < 32 \<or> c = CHR ''<'' \<or> c = CHR ''>'' \<or> c = CHR ''&''
      then CHR 0x5C # ''u00'' @ [hex_char (byte c div 16), hex_char (byte c mod 16)]
      else [c])"

function json_chars :: "string \<Rightarrow> string" where
  "json_chars [] = []"
| "json_chars (c # s) =
     (if byte c < 128 then json_escape c @ json_chars s
      else if rune_width (c # s) = 0 then CHR 0x5C # ''ufffd'' @ json_chars s
      else if take 3 (c # s) = [CHR 0xE2, CHR 0x80, CHR 0xA8]
      then CHR 0x5C # ''u2028'' @ json_chars (drop 2 s)
      else if take 3 (c # s) = [CHR 0xE2, CHR 0x80, CHR 0xA9]
      then CHR 0x5C # ''u2029'' @ json_chars (drop 2 s)
      else take (rune_width (c # s)) (c # s) @ json_chars (drop (rune_width (c # s) - 1) s))"
  by pat_completeness auto
termination
  by (relation "measure length") auto

definition json_string :: "string \<Rightarrow> string" where
  "json_string s = CHR 0x22 # json_chars s @ [CHR 0x22]"

lemma json_chars_ascii: "is_ascii s \<Longrightarrow> json_chars s = concat (map json_escape s)"
  by (induction s) auto

text \<open>The escapes form a prefix code, so an ASCII string can be read back.\<close>

lemma json_escape_prefix:
  assumes "json_escape c @ s = json_escape d @ t"
  shows "c = d \<and> s = t"
proof -
  have u: "c = d" if "hex_char (byte c div 16) = hex_char (byte d div 16)"
    "hex_char (byte c mod 16) = hex_char (byte d mod 16)"
  proof -
    from that have "byte c div 16 = byte d div 16" "byte c mod 16 = byte d mod 16"
      by (simp_all add: hex_char_inj)
    then have "byte c = byte d" by (metis div_mult_mod_eq)
    then show ?thesis by simp
  qed
  show ?thesis using assms u by (auto simp: json_escape_def split: if_splits)
qed

lemma json_escape_not_quote: "json_escape c @ s \<noteq> CHR 0x22 # t"
  by (auto simp: json_escape_def)

lemma json_string_ascii_inj:
  assumes "is_ascii s" and "is_ascii t"
    and "json_string s @ x = json_string t @ y"
  shows "s = t \<and> x = y"
proof -
  have "concat (map json_escape s) @ CHR 0x22 # x = concat (map json_escape t) @ CHR 0x22 # y"
    using assms by (simp add: json_string_def json_chars_ascii)
  then show ?thesis
  proof (induction s arbitrary: t)
    case Nil
    then show ?case by (cases t) (auto dest: sym simp: json_escape_not_quote)
  next
    case (Cons c s)
    then obtain d t' where t: "t = d # t'"
      by (cases t) (auto simp: json_escape_not_quote)
    with Cons.prems have "c = d \<and>
      concat (map json_escape s) @ CHR 0x22 # x = concat (map json_escape t') @ CHR 0x22 # y"
      by (intro json_escape_prefix) simp
    with Cons.IH t show ?case by blast
  qed
qed

text \<open>A decimal followed by a byte that is not part of one.\<close>

lemma format_int_delim_inj:
  assumes "format_int i @ c # x = format_int j @ c # y"
    and "\<not> is_digit c" and "c \<noteq> CHR ''-''"
  shows "i = j \<and> x = y"
proof -
  have n: "c \<notin> set (format_int k)" for k
    using assms(2,3) format_int_chars by blast
  have "takeWhile (\<lambda>d. d \<noteq> c) (format_int k @ c # z) = format_int k" for k z
    using n [of k] by (subst takeWhile_append2) auto
  with assms(1) have "format_int i = format_int j" by metis
  with assms(1) show ?thesis by simp
qed

end
