(* ===== verification/Database.thy ===== *)
theory Database
  imports GoLib
begin

text \<open>
  The state the program works on and how it reaches it.

  \<^item> \<open>json\<close>: JSON values (\<open>map[string]any\<close> payloads and \<open>JSONB\<close> columns) and the
    decoding of an object into a struct field as \<open>encoding/json\<close> does it.
  \<^item> One record per table of \<open>internal/migrate/sql\<close>, its fields the columns; \<open>db\<close>
    is the nine tables, each the list of its rows in insertion order.
  \<^item> \<open>lib\<close>: the functions of code outside the repository (Unicode tables, SHA-256,
    \<open>google/uuid\<close>, Postgres' text forms, bcrypt, JWT), a parameter of every definition
    that uses one.
  \<^item> \<open>world\<close>: the committed database, the working copy of the open transaction, and what
    the environment decides: the clock, the values of \<open>gen\_random\_uuid()\<close>, which database
    or broker call fails, what the merchant's server answers.
  \<^item> \<open>exec\<close>, \<open>begin_tx\<close>, \<open>commit_tx\<close>, \<open>with_tx\<close>: one statement through the
    pool or through a transaction, and \<open>Begin\<close> / \<open>defer Rollback\<close> / \<open>Commit\<close>.

  A call can fail before it has an effect (\<open>Fails\<close>) or after it (\<open>LostAck\<close>, the
  connection is lost before the answer arrives). Transactions run one after the other:
  the statements that matter lock the rows they read (\<open>FOR UPDATE\<close>) or rest on a unique
  constraint.
\<close>

section \<open>JSON values\<close>

datatype json =
    JNull
  | JBool bool
  | JNum int
  | JLit string \<comment> \<open>a number that is not written as an integer, by its literal\<close>
  | JStr string
  | JArr "json list"
  | JObj "(string \<times> json) list"

text \<open>Field names match up to case folding (\<open>foldName\<close>): ASCII, and the two runes that fold to s and k.\<close>

fun fold_key :: "string \<Rightarrow> string" where
  "fold_key [] = []"
| "fold_key (c # s) =
     (if c = CHR 0xC5 \<and> take 1 s = [CHR 0xBF] then CHR ''s'' # fold_key (drop 1 s)
      else if c = CHR 0xE2 \<and> take 2 s = [CHR 0x84, CHR 0xAA] then CHR ''k'' # fold_key (drop 2 s)
      else lower_char c # fold_key s)"

text \<open>
  Decoding a JSON value into a struct, one field at a time: keys in order, the last one wins,
  \<open>null\<close> leaves the field as it is, a value of another type is an error, and so is a value
  that is neither an object nor \<open>null\<close>.
\<close>

definition decode_field :: "(json \<Rightarrow> 'a option) \<Rightarrow> 'a \<Rightarrow> string \<Rightarrow> json \<Rightarrow> 'a option" where
  "decode_field conv zero name j =
     (case j of
        JNull \<Rightarrow> Some zero
      | JObj kvs \<Rightarrow>
          foldl (\<lambda>acc (k, v). if fold_key k \<noteq> fold_key name \<or> v = JNull then acc
                  else (case acc of None \<Rightarrow> None | Some _ \<Rightarrow> conv v))
            (Some zero) kvs
      | _ \<Rightarrow> None)"

fun json_to_string :: "json \<Rightarrow> string option" where
  "json_to_string (JStr s) = Some s"
| "json_to_string _ = None"

fun json_to_int64 :: "json \<Rightarrow> int64 option" where
  "json_to_int64 (JNum i) = (if - (2 ^ 63) \<le> i \<and> i < 2 ^ 63 then Some (word_of_int i) else None)"
| "json_to_int64 _ = None"

definition string_field :: "string \<Rightarrow> json \<Rightarrow> string option" where
  "string_field name j = decode_field json_to_string [] name j"

definition int64_field :: "string \<Rightarrow> json \<Rightarrow> int64 option" where
  "int64_field name j = decode_field json_to_int64 0 name j"

lemma string_field_single [simp]: "string_field k (JObj [(k, JStr s)]) = Some s"
  by (simp add: string_field_def decode_field_def)

section \<open>Rows\<close>

type_synonym uuid = "128 word"
type_synonym time = int \<comment> \<open>microseconds\<close>

record tenant_row =
  ten_id :: uuid
  ten_name :: string
  ten_created :: time
  ten_webhook_url :: "string option"
  ten_webhook_secret :: "string option"

record api_key_row =
  key_id :: uuid
  key_tenant :: uuid
  key_hash :: string
  key_prefix :: string
  key_created :: time
  key_revoked :: "time option"

record user_row =
  usr_id :: uuid
  usr_tenant :: uuid
  usr_email :: string
  usr_password_hash :: string
  usr_created :: time

record audit_row =
  aud_id :: uuid
  aud_tenant :: "uuid option"
  aud_event :: string
  aud_metadata :: json
  aud_created :: time

record payment =
  pay_id :: uuid
  pay_tenant :: uuid
  pay_amount :: int64
  pay_currency :: string
  pay_status :: string
  pay_key :: string
  pay_scope :: string
  pay_hash :: string
  pay_created :: time
  pay_updated :: time

record ledger_event =
  led_id :: nat
  led_tenant :: uuid
  led_payment :: uuid
  led_dedupe :: string
  led_event :: string
  led_payload :: json
  led_created :: time

record refund =
  ref_id :: uuid
  ref_tenant :: uuid
  ref_payment :: uuid
  ref_amount :: int64
  ref_currency :: string
  ref_status :: string
  ref_key :: string
  ref_scope :: string
  ref_hash :: string
  ref_created :: time
  ref_updated :: time

record delivery =
  del_id :: uuid
  del_tenant :: uuid
  del_payment :: "uuid option"
  del_refund :: "uuid option"
  del_event :: string
  del_merchant_key :: string
  del_url :: string
  del_payload :: json
  del_status :: string
  del_attempts :: int
  del_max :: int
  del_error :: "string option"
  del_next :: time
  del_created :: time
  del_updated :: time

record outbox_row =
  out_id :: uuid
  out_kind :: string
  out_payload :: json
  out_created :: time
  out_processed :: "time option"

record db =
  tenants :: "tenant_row list"
  api_keys :: "api_key_row list"
  users :: "user_row list"
  audits :: "audit_row list"
  payments :: "payment list"
  ledger :: "ledger_event list"
  refunds :: "refund list"
  deliveries :: "delivery list"
  outbox :: "outbox_row list"

definition empty_db :: db where
  "empty_db = \<lparr>tenants = [], api_keys = [], users = [], audits = [], payments = [], ledger = [],
     refunds = [], deliveries = [], outbox = []\<rparr>"

section \<open>Code outside the repository\<close>

record jwt_claims =
  clm_tid :: string
  clm_sub :: string
  clm_iat :: int
  clm_exp :: int

record lib =
  l_sha256 :: "string \<Rightarrow> string"
  l_upper :: "string \<Rightarrow> string"
  l_lower :: "string \<Rightarrow> string"
  l_uuid_string :: "uuid \<Rightarrow> string"
  l_uuid_parse :: "string \<Rightarrow> uuid option"
  l_char3 :: "string \<Rightarrow> string option"
  l_jsonb_text :: "json \<Rightarrow> string"
  l_url_ok :: "string \<Rightarrow> bool"
  l_format_time :: "string \<Rightarrow> time \<Rightarrow> string"
  l_bcrypt_hash :: "string \<Rightarrow> string option"
  l_bcrypt_match :: "string \<Rightarrow> string \<Rightarrow> bool"
  l_jwt_sign :: "string \<Rightarrow> jwt_claims \<Rightarrow> string option"
  l_jwt_parse :: "int \<Rightarrow> string \<Rightarrow> string \<Rightarrow> (string option \<times> string option) option"

text \<open>What the code relies on of \<open>google/uuid\<close>: parsing undoes printing.\<close>

definition uuid_roundtrip :: "lib \<Rightarrow> bool" where
  "uuid_roundtrip L \<longleftrightarrow> (\<forall>u. l_uuid_parse L (l_uuid_string L u) = Some u)"

lemma uuid_roundtripD [simp]:
  "uuid_roundtrip L \<Longrightarrow> l_uuid_parse L (l_uuid_string L u) = Some u"
  by (simp add: uuid_roundtrip_def)

lemma uuid_string_inj: "uuid_roundtrip L \<Longrightarrow> l_uuid_string L u = l_uuid_string L v \<longleftrightarrow> u = v"
  by (metis option.inject uuid_roundtripD)

section \<open>Errors\<close>

datatype err =
    ErrDB \<comment> \<open>a driver or constraint error\<close>
  | ErrNoRows
  | ErrPaymentIdempotencyMismatch
  | ErrPaymentInvalidInput string
  | ErrPaymentNotFound
  | ErrRefundIdempotencyMismatch
  | ErrRefundInvalidInput string
  | ErrRefundNotFound
  | ErrPaymentNotRefundable
  | ErrRefundAmountExceeded
  | ErrRefundSettle uuid string
  | ErrInvalidName
  | ErrRand
  | ErrJSON
  | ErrUUID string
  | ErrUnknownKind string
  | ErrNoJob
  | ErrBroker
  | ErrRequest
  | ErrContext

section \<open>The world\<close>

datatype fault = NoFault | Fails | LostAck

datatype reply = Refused string | Status int \<comment> \<open>what an HTTP POST to the merchant comes to\<close>

record posted =
  post_url :: string
  post_timestamp :: string
  post_signature :: string
  post_body :: string

record world =
  w_db :: db
  w_tx :: db
  w_faults :: "fault list"
  w_now :: time
  w_uuid :: "nat \<Rightarrow> uuid"
  w_gen :: nat
  w_rand :: "nat \<Rightarrow> string" \<comment> \<open>the 32 bytes of \<open>crypto/rand\<close>\<close>
  w_seq :: nat
  w_created :: nat
  w_queue :: "string \<Rightarrow> string list"
  w_merchant :: "nat \<Rightarrow> reply"
  w_sent :: "posted list"
  w_deadline :: "time option"

type_synonym 'a action = "(world, err, 'a) op"

text \<open>What a statement draws on besides the tables: \<open>gen_random_uuid()\<close>, \<open>now()\<close>, the ledger's sequence.\<close>

record gen =
  g_uuid :: uuid
  g_now :: time
  g_seq :: nat

type_synonym 'a stmt = "gen \<Rightarrow> db \<Rightarrow> err + ('a \<times> db)"

definition gen_of :: "world \<Rightarrow> gen" where
  "gen_of w = \<lparr>g_uuid = w_uuid w (w_gen w), g_now = w_now w, g_seq = w_seq w\<rparr>"

definition cur_fault :: "world \<Rightarrow> fault" where
  "cur_fault w = (case w_faults w of [] \<Rightarrow> NoFault | f # _ \<Rightarrow> f)"

definition tick :: "world \<Rightarrow> world" where
  "tick w = w\<lparr>w_faults := tl (w_faults w)\<rparr>"

definition spend :: "world \<Rightarrow> world" where
  "spend w = w\<lparr>w_faults := tl (w_faults w), w_gen := Suc (w_gen w), w_seq := Suc (w_seq w)\<rparr>"

datatype execer = Pool | Tx

fun get_db :: "execer \<Rightarrow> world \<Rightarrow> db" where
  "get_db Pool w = w_db w"
| "get_db Tx w = w_tx w"

fun put_db :: "execer \<Rightarrow> db \<Rightarrow> world \<Rightarrow> world" where
  "put_db Pool d w = w\<lparr>w_db := d\<rparr>"
| "put_db Tx d w = w\<lparr>w_tx := d\<rparr>"

definition exec :: "execer \<Rightarrow> 'a stmt \<Rightarrow> 'a action" where
  "exec q f w =
     (if cur_fault w = Fails then (Inl ErrDB, tick w)
      else (case f (gen_of w) (get_db q w) of
              Inl e \<Rightarrow> (Inl e, spend w)
            | Inr (x, d) \<Rightarrow>
                (if cur_fault w = LostAck then Inl ErrDB else Inr x, put_db q d (spend w))))"

definition query :: "execer \<Rightarrow> (db \<Rightarrow> 'a) \<Rightarrow> 'a action" where
  "query q f = exec q (\<lambda>_ d. Inr (f d, d))"

definition begin_tx :: "unit action" where
  "begin_tx w =
     (if cur_fault w = NoFault then (Inr (), (tick w)\<lparr>w_tx := w_db w\<rparr>) else (Inl ErrDB, tick w))"

definition commit_tx :: "unit action" where
  "commit_tx w =
     (case cur_fault w of
        NoFault \<Rightarrow> (Inr (), (tick w)\<lparr>w_db := w_tx w\<rparr>)
      | Fails \<Rightarrow> (Inl ErrDB, tick w)
      | LostAck \<Rightarrow> (Inl ErrDB, (tick w)\<lparr>w_db := w_tx w\<rparr>))"

definition defer_rollback :: "'a action \<Rightarrow> 'a action" where
  "defer_rollback m w = (case m w of (r, v) \<Rightarrow> (r, v\<lparr>w_tx := w_db v\<rparr>))"

definition with_tx :: "'a action \<Rightarrow> 'a action" where
  "with_tx m = op_then begin_tx (\<lambda>_. defer_rollback m)"

text \<open>A world whose calls all succeed.\<close>

definition quiet :: "world \<Rightarrow> bool" where
  "quiet w \<longleftrightarrow> w_faults w = []"

text \<open>
  The next \<open>k\<close> values of \<open>gen_random_uuid()\<close> differ from each other and from every
  identifier in use, and the ledger's sequence is ahead of its rows.
\<close>

definition used_ids :: "db \<Rightarrow> uuid set" where
  "used_ids d = ten_id ` set (tenants d) \<union> key_id ` set (api_keys d) \<union> usr_id ` set (users d) \<union>
     aud_id ` set (audits d) \<union> pay_id ` set (payments d) \<union> ref_id ` set (refunds d) \<union>
     del_id ` set (deliveries d) \<union> out_id ` set (outbox d)"

definition fresh_ids :: "nat \<Rightarrow> world \<Rightarrow> bool" where
  "fresh_ids k w \<longleftrightarrow>
     (\<forall>n \<in> {w_gen w..<w_gen w + k}. w_uuid w n \<notin> used_ids (w_db w)) \<and>
     inj_on (w_uuid w) {w_gen w..<w_gen w + k} \<and>
     (\<forall>e \<in> set (ledger (w_db w)). led_id e < w_seq w)"

lemma fresh_ids_use:
  assumes "fresh_ids k w" and "j < k"
  shows "w_uuid w (w_gen w + j) \<notin> used_ids (w_db w)"
  using assms unfolding fresh_ids_def by auto

lemma fresh_ids_seq: "fresh_ids k w \<Longrightarrow> w_seq w + j \<notin> led_id ` set (ledger (w_db w))"
  by (auto simp: fresh_ids_def)

section \<open>Rules for statements and transactions\<close>

lemma tick_simps [simp]:
  "w_db (tick w) = w_db w" "w_tx (tick w) = w_tx w" "w_now (tick w) = w_now w"
  "w_rand (tick w) = w_rand w" "w_gen (tick w) = w_gen w" "w_seq (tick w) = w_seq w" "w_uuid (tick w) = w_uuid w"
  "w_queue (tick w) = w_queue w" "w_merchant (tick w) = w_merchant w"
  "w_sent (tick w) = w_sent w" "w_created (tick w) = w_created w"
  "w_deadline (tick w) = w_deadline w" "w_faults (tick w) = tl (w_faults w)"
  by (simp_all add: tick_def)

lemma spend_simps [simp]:
  "w_db (spend w) = w_db w" "w_tx (spend w) = w_tx w" "w_now (spend w) = w_now w"
  "w_rand (spend w) = w_rand w" "w_gen (spend w) = Suc (w_gen w)" "w_seq (spend w) = Suc (w_seq w)" "w_uuid (spend w) = w_uuid w"
  "w_queue (spend w) = w_queue w" "w_merchant (spend w) = w_merchant w"
  "w_sent (spend w) = w_sent w" "w_created (spend w) = w_created w"
  "w_deadline (spend w) = w_deadline w" "w_faults (spend w) = tl (w_faults w)"
  by (simp_all add: spend_def)

lemma gen_of_simps [simp]:
  "g_uuid (gen_of w) = w_uuid w (w_gen w)" "g_now (gen_of w) = w_now w" "g_seq (gen_of w) = w_seq w"
  by (simp_all add: gen_of_def)

lemma quiet_fault [simp]: "quiet w \<Longrightarrow> cur_fault w = NoFault"
  by (simp add: quiet_def cur_fault_def)

lemma quiet_tick [simp]: "quiet w \<Longrightarrow> tick w = w"
  by (simp add: quiet_def tick_def)

lemma quiet_keep [simp]:
  "quiet w \<Longrightarrow> quiet (spend w)" "quiet (put_db q d w) = quiet w"
  "quiet (w\<lparr>w_db := d\<rparr>) = quiet w" "quiet (w\<lparr>w_tx := d\<rparr>) = quiet w"
  "quiet (w\<lparr>w_created := n\<rparr>) = quiet w" "quiet (w\<lparr>w_queue := k\<rparr>) = quiet w"
  "quiet (w\<lparr>w_sent := s\<rparr>) = quiet w" "quiet (w\<lparr>w_now := t\<rparr>) = quiet w"
  by (cases q; simp add: quiet_def spend_def)+

lemma put_get_db [simp]: "put_db q (get_db q w) (spend w) = spend w"
  by (cases q) simp_all

text \<open>What the calls to the database leave alone.\<close>

definition env_of :: "world \<Rightarrow> time \<times> (nat \<Rightarrow> reply) \<times> time option \<times> (string \<Rightarrow> string list)" where
  "env_of w = (w_now w, w_merchant w, w_deadline w, w_queue w)"

lemma env_of_simps [simp]:
  "env_of (tick w) = env_of w" "env_of (spend w) = env_of w" "env_of (put_db q d w) = env_of w"
  "env_of (w\<lparr>w_sent := s\<rparr>) = env_of w" "env_of (w\<lparr>w_tx := d\<rparr>) = env_of w" "env_of (w\<lparr>w_db := d\<rparr>) = env_of w"
  by (cases q; simp add: env_of_def)+

text \<open>
  What one call can do, whichever call of the schedule fails: an error leaves the committed
  tables as they were, except through the pool, where the effect can be there although the
  answer was lost.
\<close>

lemma wp_exec_TxI [wp_rules]:
  assumes "\<And>e v. w_db v = w_db w \<Longrightarrow> env_of v = env_of w \<Longrightarrow> E e v"
    and "\<And>x d v. f (gen_of w) (w_tx w) = Inr (x, d) \<Longrightarrow> w_db v = w_db w \<Longrightarrow> w_tx v = d \<Longrightarrow> env_of v = env_of w \<Longrightarrow> Q x v"
  shows "wp (exec Tx f) Q E w"
  using assms by (auto simp: wp_def exec_def split: sum.splits prod.splits)

lemma wp_query_TxI [wp_rules]:
  assumes "\<And>e v. w_db v = w_db w \<Longrightarrow> env_of v = env_of w \<Longrightarrow> E e v"
    and "\<And>v. w_db v = w_db w \<Longrightarrow> w_tx v = w_tx w \<Longrightarrow> env_of v = env_of w \<Longrightarrow> Q (f (w_tx w)) v"
  shows "wp (query Tx f) Q E w"
  unfolding query_def using assms by (intro wp_rules) auto

lemma wp_exec_PoolI [wp_rules]:
  assumes "\<And>e v. w_db v = w_db w \<Longrightarrow> w_tx v = w_tx w \<Longrightarrow> env_of v = env_of w \<Longrightarrow> E e v"
    and "\<And>e x d v. f (gen_of w) (w_db w) = Inr (x, d) \<Longrightarrow> w_db v = d \<Longrightarrow> w_tx v = w_tx w \<Longrightarrow> env_of v = env_of w \<Longrightarrow> E e v"
    and "\<And>x d v. f (gen_of w) (w_db w) = Inr (x, d) \<Longrightarrow> w_db v = d \<Longrightarrow> w_tx v = w_tx w \<Longrightarrow> env_of v = env_of w \<Longrightarrow> Q x v"
  shows "wp (exec Pool f) Q E w"
  using assms by (auto simp: wp_def exec_def split: sum.splits prod.splits)

lemma wp_query_PoolI [wp_rules]:
  assumes "\<And>e v. w_db v = w_db w \<Longrightarrow> w_tx v = w_tx w \<Longrightarrow> env_of v = env_of w \<Longrightarrow> E e v"
    and "\<And>v. w_db v = w_db w \<Longrightarrow> w_tx v = w_tx w \<Longrightarrow> env_of v = env_of w \<Longrightarrow> Q (f (w_db w)) v"
  shows "wp (query Pool f) Q E w"
  unfolding query_def using assms by (intro wp_rules) auto

lemma wp_beginI [wp_rules]:
  assumes "\<And>e v. w_db v = w_db w \<Longrightarrow> env_of v = env_of w \<Longrightarrow> E e v"
    and "\<And>v. w_db v = w_db w \<Longrightarrow> w_tx v = w_db w \<Longrightarrow> env_of v = env_of w \<Longrightarrow> Q () v"
  shows "wp begin_tx Q E w"
  using assms by (auto simp: wp_def begin_tx_def)

lemma wp_commitI [wp_rules]:
  assumes "\<And>e v. w_db v = w_db w \<Longrightarrow> env_of v = env_of w \<Longrightarrow> E e v"
    and "\<And>v. w_db v = w_tx w \<Longrightarrow> env_of v = env_of w \<Longrightarrow> E ErrDB v"
    and "\<And>v. w_db v = w_tx w \<Longrightarrow> w_tx v = w_tx w \<Longrightarrow> env_of v = env_of w \<Longrightarrow> Q () v"
  shows "wp commit_tx Q E w"
  using assms by (auto simp: wp_def commit_tx_def split: fault.splits)

lemma wp_deferI [wp_rules]:
  "wp m (\<lambda>x v. Q x (v\<lparr>w_tx := w_db v\<rparr>)) (\<lambda>e v. E e (v\<lparr>w_tx := w_db v\<rparr>)) w \<Longrightarrow>
   wp (defer_rollback m) Q E w"
  by (simp add: wp_def defer_rollback_def split: prod.splits)

lemma wp_with_txI [wp_rules]:
  assumes "\<And>e v. w_db v = w_db w \<Longrightarrow> env_of v = env_of w \<Longrightarrow> E e v"
    and "\<And>v. w_db v = w_db w \<Longrightarrow> w_tx v = w_db w \<Longrightarrow> env_of v = env_of w \<Longrightarrow>
      wp m (\<lambda>x v. Q x (v\<lparr>w_tx := w_db v\<rparr>)) (\<lambda>e v. E e (v\<lparr>w_tx := w_db v\<rparr>)) v"
  shows "wp (with_tx m) Q E w"
  unfolding with_tx_def using assms by (intro wp_rules) auto

text \<open>The same for calls that do not fail.\<close>

lemma exec_quiet [op_simps]:
  "quiet w \<Longrightarrow> exec q f w =
     (case f (gen_of w) (get_db q w) of
        Inl e \<Rightarrow> (Inl e, spend w)
      | Inr (x, d) \<Rightarrow> (Inr x, put_db q d (spend w)))"
  by (simp add: exec_def split: sum.splits prod.splits)

lemma query_quiet [op_simps]: "quiet w \<Longrightarrow> query q f w = (Inr (f (get_db q w)), spend w)"
  by (simp add: query_def exec_quiet)

lemma commit_quiet [op_simps]: "quiet w \<Longrightarrow> commit_tx w = (Inr (), w\<lparr>w_db := w_tx w\<rparr>)"
  by (simp add: commit_tx_def)

lemma with_tx_quiet [op_simps]:
  "quiet w \<Longrightarrow> with_tx m w = (case m (w\<lparr>w_tx := w_db w\<rparr>) of (r, v) \<Rightarrow> (r, v\<lparr>w_tx := w_db v\<rparr>))"
  by (simp add: with_tx_def begin_tx_def op_then_def defer_rollback_def)

section \<open>Predicates on the database\<close>

text \<open>
  A predicate that holds of the committed tables and of the open transaction's copy: kept by a
  statement that keeps it, and by opening, committing and rolling back a transaction.
\<close>

definition on_db :: "(db \<Rightarrow> bool) \<Rightarrow> world \<Rightarrow> bool" where
  "on_db D w \<longleftrightarrow> D (w_db w) \<and> D (w_tx w)"

definition stmt_keeps :: "(db \<Rightarrow> bool) \<Rightarrow> 'a stmt \<Rightarrow> bool" where
  "stmt_keeps D f \<longleftrightarrow> (\<forall>g d x d'. D d \<longrightarrow> f g d = Inr (x, d') \<longrightarrow> D d')"

lemma stmt_keepsI: "(\<And>g d x d'. D d \<Longrightarrow> f g d = Inr (x, d') \<Longrightarrow> D d') \<Longrightarrow> stmt_keeps D f"
  by (auto simp: stmt_keeps_def)

lemma keeps_exec [keeps_rules, intro]: "stmt_keeps D f \<Longrightarrow> keeps (on_db D) (exec q f)"
  by (rule keepsI, cases q)
    (auto simp: exec_def on_db_def stmt_keeps_def split: if_splits sum.splits prod.splits)

lemma keeps_query [keeps_rules, intro]: "keeps (on_db D) (query q f)"
  unfolding query_def by (intro keeps_rules) (simp add: stmt_keeps_def)

lemma keeps_begin [keeps_rules, intro]: "keeps (on_db D) begin_tx"
  by (rule keepsI) (auto simp: begin_tx_def on_db_def split: if_splits)

lemma keeps_commit [keeps_rules, intro]: "keeps (on_db D) commit_tx"
  by (rule keepsI) (auto simp: commit_tx_def on_db_def split: fault.splits)

lemma keeps_defer [keeps_rules, intro]:
  "keeps (on_db D) m \<Longrightarrow> keeps (on_db D) (defer_rollback m)"
  by (rule keepsI) (auto simp: defer_rollback_def on_db_def split: prod.splits dest: keepsD)

lemma keeps_with_tx [keeps_rules, intro]: "keeps (on_db D) m \<Longrightarrow> keeps (on_db D) (with_tx m)"
  unfolding with_tx_def by (intro keeps_rules)

lemma on_db_simps [simp]:
  "on_db D (w\<lparr>w_created := n\<rparr>) = on_db D w" "on_db D (w\<lparr>w_queue := k\<rparr>) = on_db D w"
  "on_db D (w\<lparr>w_sent := s\<rparr>) = on_db D w" "on_db D (w\<lparr>w_now := t\<rparr>) = on_db D w"
  by (simp_all add: on_db_def)

end
