(* ===== verification/Ledger.thy ===== *)
theory Ledger
  imports Database
begin

text \<open>
  The append-only records: \<open>internal/ledger\<close>, \<open>internal/audit\<close>, \<open>internal/outbox\<close>,
  and the contract of \<open>INSERT \<dots> ON CONFLICT DO NOTHING\<close> that the ledger, the payments, the
  refunds and the webhook deliveries all rest on (locale \<open>keyed_insert\<close>).
\<close>

section \<open>Insert or do nothing\<close>

text \<open>
  \<open>ins a\<close> is the statement with the values \<open>a\<close>, \<open>tab\<close> the table it writes, \<open>kof\<close>
  the columns of its unique constraint, \<open>akey\<close> their values in \<open>a\<close>. A row that is there
  already makes the statement do nothing; otherwise the new row goes to the end.
\<close>

locale keyed_insert =
  fixes tab :: "db \<Rightarrow> 'r list"
    and kof :: "'r \<Rightarrow> 'k"
    and akey :: "'a \<Rightarrow> 'k"
    and ins :: "'a \<Rightarrow> 'r option stmt"
  assumes ins_None: "ins a g d = Inr (None, d') \<Longrightarrow> d' = d \<and> akey a \<in> kof ` set (tab d)"
    and ins_Some: "ins a g d = Inr (Some r, d') \<Longrightarrow>
      tab d' = tab d @ [r] \<and> kof r = akey a \<and> akey a \<notin> kof ` set (tab d)"
begin

lemma distinct_kept:
  assumes "ins a g d = Inr (x, d')" and "distinct (map kof (tab d))"
  shows "distinct (map kof (tab d'))"
proof (cases x)
  case None
  with assms ins_None show ?thesis by blast
next
  case (Some r)
  with assms ins_Some [of a g d r d'] show ?thesis by (auto simp: image_iff)
qed

lemma appended:
  assumes "ins a g d = Inr (x, d')"
  shows "tab d' = tab d @ (case x of None \<Rightarrow> [] | Some r \<Rightarrow> [r])"
  using assms ins_None [of a g d d'] ins_Some [of a g d _ d'] by (cases x) auto

lemma key_present:
  assumes "ins a g d = Inr (x, d')"
  shows "akey a \<in> kof ` set (tab d')"
  using assms ins_None [of a g d d'] ins_Some [of a g d _ d'] by (cases x) auto

text \<open>Once the key is there, the same statement never adds another row.\<close>

lemma second_does_nothing:
  assumes "ins a g d = Inr (x, d')" and "ins a' g' d' = Inr (y, d'')" and "akey a' = akey a"
  shows "y = None \<and> d'' = d'"
proof (cases y)
  case None
  with assms ins_None show ?thesis by blast
next
  case (Some r)
  with assms ins_Some [of a' g' d' r d''] key_present [OF assms(1)] show ?thesis by simp
qed

lemma found_after:
  assumes "ins a g d = Inr (Some r, d')"
  shows "find (\<lambda>r'. kof r' = akey a) (tab d') = Some r"
proof -
  have t: "tab d' = tab d @ [r]" and k: "kof r = akey a" and a: "akey a \<notin> kof ` set (tab d)"
    using ins_Some [OF assms] by simp_all
  from a have n: "\<forall>r' \<in> set (tab d). kof r' \<noteq> akey a" by (metis imageI)
  from n have "find (\<lambda>r'. kof r' = akey a) (tab d) = None" by (simp add: find_None_in)
  with t k show ?thesis by (simp add: find_append)
qed

end

section \<open>ledger.Append\<close>

definition led_key :: "ledger_event \<Rightarrow> uuid \<times> string" where
  "led_key e = (led_payment e, led_dedupe e)"

text \<open>
  The statement of \<open>Append\<close>: the unique constraint on (payment, dedupe key), the primary key
  drawn from the sequence, the two foreign keys.
\<close>

definition sql_insert_ledger ::
  "uuid \<Rightarrow> uuid \<Rightarrow> string \<Rightarrow> string \<Rightarrow> json \<Rightarrow> ledger_event option stmt" where
  "sql_insert_ledger tenant pid dedupe event payload g d =
     (let r = \<lparr>led_id = g_seq g, led_tenant = tenant, led_payment = pid, led_dedupe = dedupe,
               led_event = event, led_payload = payload, led_created = g_now g\<rparr>
      in if (pid, dedupe) \<in> led_key ` set (ledger d) then Inr (None, d)
         else if g_seq g \<in> led_id ` set (ledger d) then Inl ErrDB
         else if tenant \<notin> ten_id ` set (tenants d) \<or> pid \<notin> pay_id ` set (payments d) then Inl ErrDB
         else Inr (Some r, d\<lparr>ledger := ledger d @ [r]\<rparr>))"

definition ledger_append ::
  "execer \<Rightarrow> uuid \<Rightarrow> uuid \<Rightarrow> string \<Rightarrow> string \<Rightarrow> (string \<times> json) list option \<Rightarrow> bool action" where
  "ledger_append q tenant pid dedupe event payload =
     (let obj = (case payload of None \<Rightarrow> [] | Some kvs \<Rightarrow> kvs)
      in op_then (exec q (sql_insert_ledger tenant pid dedupe event (JObj obj)))
           (\<lambda>tag. op_ok (tag \<noteq> None)))"

interpretation led_ins: keyed_insert ledger led_key "\<lambda>(t, p, k, e, j). (p, k)"
  "\<lambda>(t, p, k, e, j). sql_insert_ledger t p k e j"
  by unfold_locales (auto simp: sql_insert_ledger_def led_key_def Let_def split: if_splits)

text \<open>A row as \<open>ListByPayment\<close> hands it out (Go's \<open>ledger.Event\<close>).\<close>

record event =
  ev_id :: nat
  ev_dedupe :: string
  ev_type :: string
  ev_payload :: "(string \<times> json) list"
  ev_created :: time

fun scan_event :: "ledger_event \<Rightarrow> err + event" where
  "scan_event e =
     (case led_payload e of
        JObj kvs \<Rightarrow> Inr \<lparr>ev_id = led_id e, ev_dedupe = led_dedupe e, ev_type = led_event e,
                     ev_payload = kvs, ev_created = led_created e\<rparr>
      | JNull \<Rightarrow> Inr \<lparr>ev_id = led_id e, ev_dedupe = led_dedupe e, ev_type = led_event e,
                     ev_payload = [], ev_created = led_created e\<rparr>
      | _ \<Rightarrow> Inl ErrJSON)"

fun scan_all :: "('r \<Rightarrow> err + 'v) \<Rightarrow> 'r list \<Rightarrow> err + 'v list" where
  "scan_all f [] = Inr []"
| "scan_all f (r # rs) =
     (case f r of Inl e \<Rightarrow> Inl e
      | Inr v \<Rightarrow> (case scan_all f rs of Inl e \<Rightarrow> Inl e | Inr vs \<Rightarrow> Inr (v # vs)))"

definition list_by_payment :: "uuid \<Rightarrow> uuid \<Rightarrow> event list action" where
  "list_by_payment tenant pid =
     op_then (query Pool (\<lambda>d. sort_key led_id
                (filter (\<lambda>e. led_tenant e = tenant \<and> led_payment e = pid) (ledger d))))
       (\<lambda>rows. case scan_all scan_event rows of Inl e \<Rightarrow> op_err e | Inr out \<Rightarrow> op_ok out)"

section \<open>audit.Write\<close>

definition sql_insert_audit :: "uuid option \<Rightarrow> string \<Rightarrow> json \<Rightarrow> unit stmt" where
  "sql_insert_audit tenant event meta g d =
     (if g_uuid g \<in> aud_id ` set (audits d) then Inl ErrDB
      else if (case tenant of None \<Rightarrow> False | Some t \<Rightarrow> t \<notin> ten_id ` set (tenants d)) then Inl ErrDB
      else Inr ((), d\<lparr>audits := audits d @ [\<lparr>aud_id = g_uuid g, aud_tenant = tenant, aud_event = event,
                        aud_metadata = meta, aud_created = g_now g\<rparr>]\<rparr>))"

definition audit_write ::
  "execer \<Rightarrow> uuid option \<Rightarrow> string \<Rightarrow> (string \<times> json) list option \<Rightarrow> unit action" where
  "audit_write q tenant event meta =
     (let obj = (case meta of None \<Rightarrow> [] | Some kvs \<Rightarrow> kvs)
      in exec q (sql_insert_audit tenant event (JObj obj)))"

section \<open>outbox.InsertPaymentSettlement, outbox.InsertRefundSettlement\<close>

definition kind_payment_settlement :: string where
  "kind_payment_settlement = ''payment_settlement''"

definition kind_refund_settlement :: string where
  "kind_refund_settlement = ''refund_settlement''"

definition sql_insert_outbox :: "string \<Rightarrow> json \<Rightarrow> unit stmt" where
  "sql_insert_outbox kind payload g d =
     (if kind \<notin> {kind_payment_settlement, kind_refund_settlement} then Inl ErrDB
      else if g_uuid g \<in> out_id ` set (outbox d) then Inl ErrDB
      else Inr ((), d\<lparr>outbox := outbox d @ [\<lparr>out_id = g_uuid g, out_kind = kind, out_payload = payload,
                        out_created = g_now g, out_processed = None\<rparr>]\<rparr>))"

definition insert_payment_settlement :: "lib \<Rightarrow> execer \<Rightarrow> uuid \<Rightarrow> unit action" where
  "insert_payment_settlement L q pid =
     exec q (sql_insert_outbox kind_payment_settlement
       (JObj [(''payment_id'', JStr (l_uuid_string L pid))]))"

definition insert_refund_settlement :: "lib \<Rightarrow> execer \<Rightarrow> uuid \<Rightarrow> unit action" where
  "insert_refund_settlement L q rid =
     exec q (sql_insert_outbox kind_refund_settlement
       (JObj [(''refund_id'', JStr (l_uuid_string L rid))]))"

section \<open>Properties of the records\<close>

lemma scan_all_map: "(\<And>r. r \<in> set rs \<Longrightarrow> f r = Inr (g r)) \<Longrightarrow> scan_all f rs = Inr (map g rs)"
  by (induction rs) auto

text \<open>What a successful statement did.\<close>

lemma sql_insert_ledger_Some:
  "sql_insert_ledger t p k e j g d = Inr (Some ev, d') \<Longrightarrow>
   led_tenant ev = t \<and> led_key ev = (p, k) \<and> led_event ev = e \<and> led_payload ev = j \<and>
   led_key ev \<notin> led_key ` set (ledger d) \<and> led_id ev \<notin> led_id ` set (ledger d) \<and>
   t \<in> ten_id ` set (tenants d) \<and> p \<in> pay_id ` set (payments d) \<and>
   d' = d\<lparr>ledger := ledger d @ [ev]\<rparr>"
  by (auto simp: sql_insert_ledger_def led_key_def Let_def split: if_splits)

lemma sql_insert_ledger_None:
  "sql_insert_ledger t p k e j g d = Inr (None, d') \<Longrightarrow> d' = d \<and> (p, k) \<in> led_key ` set (ledger d)"
  by (auto simp: sql_insert_ledger_def Let_def split: if_splits)

text \<open>
  The rows an append adds: none when the key is there, else one with the given fields.
\<close>

definition event_added ::
  "uuid \<Rightarrow> uuid \<times> string \<Rightarrow> string \<Rightarrow> ledger_event list \<Rightarrow> ledger_event list \<Rightarrow> bool" where
  "event_added tenant k event old evs \<longleftrightarrow>
     (if k \<in> led_key ` set old then evs = []
      else (\<exists>e. evs = [e] \<and> led_key e = k \<and> led_tenant e = tenant \<and> led_event e = event))"

lemma sql_insert_ledger_added:
  assumes "sql_insert_ledger t p k e j g d = Inr (x, d')"
  shows "\<exists>evs. event_added t (p, k) e (ledger d) evs \<and> d' = d\<lparr>ledger := ledger d @ evs\<rparr>"
proof (cases x)
  case None
  with assms have "d' = d" "(p, k) \<in> led_key ` set (ledger d)"
    using sql_insert_ledger_None by blast+
  then show ?thesis by (intro exI [of _ "[]"]) (simp add: event_added_def)
next
  case (Some ev)
  with assms have "led_tenant ev = t" "led_key ev = (p, k)" "led_event ev = e"
      "(p, k) \<notin> led_key ` set (ledger d)" "d' = d\<lparr>ledger := ledger d @ [ev]\<rparr>"
    using sql_insert_ledger_Some by (metis (no_types))+
  then show ?thesis by (intro exI [of _ "[ev]"]) (simp add: event_added_def)
qed

lemma event_added_key: "event_added t k e old evs \<Longrightarrow> k \<in> led_key ` set (old @ evs)"
proof (cases "k \<in> led_key ` set old")
  case True
  then show ?thesis by auto
next
  case False
  assume "event_added t k e old evs"
  from this [unfolded event_added_def if_not_P [OF False]]
  obtain ev where ev: "evs = [ev]" "led_key ev = k" by blast
  show ?thesis unfolding ev(1) ev(2) [symmetric] by simp
qed

lemma sql_insert_audit_ok:
  "sql_insert_audit t e j g d = Inr (u, d') \<Longrightarrow>
   \<exists>au. aud_tenant au = t \<and> aud_event au = e \<and> aud_metadata au = j \<and>
     d' = d\<lparr>audits := audits d @ [au]\<rparr>"
  by (rule exI [of _ "\<lparr>aud_id = g_uuid g, aud_tenant = t, aud_event = e, aud_metadata = j,
        aud_created = g_now g\<rparr>"]) (auto simp: sql_insert_audit_def split: if_splits)

lemma sql_insert_outbox_ok:
  "sql_insert_outbox kind j g d = Inr (u, d') \<Longrightarrow>
   \<exists>ob. out_kind ob = kind \<and> out_payload ob = j \<and> out_processed ob = None \<and>
     out_id ob \<notin> out_id ` set (outbox d) \<and> d' = d\<lparr>outbox := outbox d @ [ob]\<rparr>"
  by (rule exI [of _ "\<lparr>out_id = g_uuid g, out_kind = kind, out_payload = j,
        out_created = g_now g, out_processed = None\<rparr>"])
    (auto simp: sql_insert_outbox_def split: if_splits)

text \<open>The three writers inside a transaction, whichever call fails.\<close>

lemma wp_ledger_append_Tx [wp_rules]:
  assumes "\<And>e v. w_db v = w_db w \<Longrightarrow> env_of v = env_of w \<Longrightarrow> E e v"
    and "\<And>x d v. sql_insert_ledger t p k ev (JObj (case pl of None \<Rightarrow> [] | Some kvs \<Rightarrow> kvs))
           (gen_of w) (w_tx w) = Inr (x, d) \<Longrightarrow>
         w_db v = w_db w \<Longrightarrow> w_tx v = d \<Longrightarrow> env_of v = env_of w \<Longrightarrow> Q (x \<noteq> None) v"
  shows "wp (ledger_append Tx t p k ev pl) Q E w"
  unfolding ledger_append_def Let_def using assms by (intro wp_rules) auto

lemma wp_audit_write_Tx [wp_rules]:
  assumes "\<And>e v. w_db v = w_db w \<Longrightarrow> env_of v = env_of w \<Longrightarrow> E e v"
    and "\<And>d v. sql_insert_audit t ev (JObj (case m of None \<Rightarrow> [] | Some kvs \<Rightarrow> kvs))
           (gen_of w) (w_tx w) = Inr ((), d) \<Longrightarrow>
         w_db v = w_db w \<Longrightarrow> w_tx v = d \<Longrightarrow> env_of v = env_of w \<Longrightarrow> Q () v"
  shows "wp (audit_write Tx t ev m) Q E w"
  unfolding audit_write_def Let_def using assms by (intro wp_rules) auto

lemma wp_insert_payment_settlement_Tx [wp_rules]:
  assumes "\<And>e v. w_db v = w_db w \<Longrightarrow> env_of v = env_of w \<Longrightarrow> E e v"
    and "\<And>d v. sql_insert_outbox kind_payment_settlement
           (JObj [(''payment_id'', JStr (l_uuid_string L p))]) (gen_of w) (w_tx w) = Inr ((), d) \<Longrightarrow>
         w_db v = w_db w \<Longrightarrow> w_tx v = d \<Longrightarrow> env_of v = env_of w \<Longrightarrow> Q () v"
  shows "wp (insert_payment_settlement L Tx p) Q E w"
  unfolding insert_payment_settlement_def using assms by (intro wp_rules) auto

lemma wp_insert_refund_settlement_Tx [wp_rules]:
  assumes "\<And>e v. w_db v = w_db w \<Longrightarrow> env_of v = env_of w \<Longrightarrow> E e v"
    and "\<And>d v. sql_insert_outbox kind_refund_settlement
           (JObj [(''refund_id'', JStr (l_uuid_string L p))]) (gen_of w) (w_tx w) = Inr ((), d) \<Longrightarrow>
         w_db v = w_db w \<Longrightarrow> w_tx v = d \<Longrightarrow> env_of v = env_of w \<Longrightarrow> Q () v"
  shows "wp (insert_refund_settlement L Tx p) Q E w"
  unfolding insert_refund_settlement_def using assms by (intro wp_rules) auto

text \<open>Appending the same event twice leaves what appending it once leaves, whatever the payload.\<close>

lemma ledger_append_twice:
  assumes "quiet w" and "ledger_append q t p k e pl w = (Inr b, w1)"
  shows "\<exists>w2. ledger_append q t p k e' pl' w1 = (Inr False, w2) \<and> w_db w2 = w_db w1 \<and> w_tx w2 = w_tx w1"
proof -
  from assms obtain x where s: "sql_insert_ledger t p k e (JObj (case pl of None \<Rightarrow> [] | Some kvs \<Rightarrow> kvs))
      (gen_of w) (get_db q w) = Inr (x, get_db q w1)" and "quiet w1"
    by (cases q) (auto simp: ledger_append_def op_then_Inr exec_quiet op_ok_apply
        split: sum.splits prod.splits)
  have "(p, k) \<in> led_key ` set (ledger (get_db q w1))"
    using led_ins.key_present [of "(t, p, k, e, JObj (case pl of None \<Rightarrow> [] | Some kvs \<Rightarrow> kvs))"] s
    by simp
  then have "sql_insert_ledger t p k e' j (gen_of w1) (get_db q w1) = Inr (None, get_db q w1)" for j
    by (simp add: sql_insert_ledger_def)
  with \<open>quiet w1\<close> show ?thesis
    by (cases q) (simp_all add: ledger_append_def op_then_def exec_quiet op_ok_apply)
qed

end
