(* ===== verification/Reference.thy ===== *)
theory Reference
  imports Database
begin

text \<open>
  A concrete environment, on which the development's hypotheses about code outside the
  repository are shown to hold together: UUIDs printed in the canonical 8-4-4-4-12 lower-case
  hexadecimal form and read back, an injective stand-in for the digest, and a world whose
  \<open>gen_random_uuid()\<close> counts up. Only examples use it; no property depends on it.
\<close>

section \<open>Hexadecimal numbers of a fixed length\<close>

fun hex_of_nat :: "nat \<Rightarrow> nat \<Rightarrow> string" where
  "hex_of_nat 0 n = []"
| "hex_of_nat (Suc k) n = hex_of_nat k (n div 16) @ [hex_char (n mod 16)]"

definition hex_val :: "char \<Rightarrow> nat" where
  "hex_val c = (if 97 \<le> byte c then byte c - 87 else byte c - 48)"

definition is_hex :: "char \<Rightarrow> bool" where
  "is_hex c \<longleftrightarrow> (48 \<le> byte c \<and> byte c \<le> 57) \<or> (97 \<le> byte c \<and> byte c \<le> 102)"

definition nat_of_hex :: "string \<Rightarrow> nat" where
  "nat_of_hex s = foldl (\<lambda>a c. 16 * a + hex_val c) 0 s"

lemma hex_char_cases:
  assumes "n < 16"
  shows "hex_val (hex_char n) = n \<and> is_hex (hex_char n)"
proof -
  have "n \<in> {0, 1, 2, 3, 4, 5, 6, 7, 8, 9, 10, 11, 12, 13, 14, 15}"
    using assms by (simp add: numeral_eq_Suc less_Suc_eq)
  then show ?thesis by (elim insertE emptyE) (simp_all add: hex_val_def hex_char_def is_hex_def byte_def)
qed

lemma hex_of_nat_length [simp]: "length (hex_of_nat k n) = k"
  by (induction k arbitrary: n) simp_all

lemma hex_of_nat_hex: "list_all is_hex (hex_of_nat k n)"
  by (induction k arbitrary: n) (simp_all add: hex_char_cases)

lemma nat_of_hex_of_nat: "nat_of_hex (hex_of_nat k n) = n mod 16 ^ k"
proof (induction k arbitrary: n)
  case 0
  then show ?case by (simp add: nat_of_hex_def)
next
  case (Suc k)
  have "nat_of_hex (hex_of_nat (Suc k) n) = 16 * (n div 16 mod 16 ^ k) + n mod 16"
    using Suc by (simp add: nat_of_hex_def hex_char_cases)
  also have "\<dots> = n mod (16 * 16 ^ k)" by (simp add: mod_mult2_eq)
  finally show ?case by simp
qed

section \<open>The reference environment\<close>

definition ref_uuid_string :: "uuid \<Rightarrow> string" where
  "ref_uuid_string u =
     (let h = hex_of_nat 32 (unat u)
      in take 8 h @ ''-'' @ take 4 (drop 8 h) @ ''-'' @ take 4 (drop 12 h) @ ''-'' @
         take 4 (drop 16 h) @ ''-'' @ drop 20 h)"

definition ref_uuid_parse :: "string \<Rightarrow> uuid option" where
  "ref_uuid_parse s =
     (let h = filter (\<lambda>c. c \<noteq> CHR ''-'') s
      in if length h = 32 \<and> list_all is_hex h then Some (word_of_nat (nat_of_hex h)) else None)"

lemma filter_no_dash:
  assumes "list_all is_hex h"
  shows "filter (\<lambda>c. c \<noteq> CHR ''-'') h = h"
proof -
  have "c \<noteq> CHR ''-''" if "is_hex c" for c using that by (auto simp: is_hex_def byte_def)
  with assms show ?thesis by (simp add: list_all_iff filter_id_conv)
qed

lemma split_at_dashes:
  "take 8 h @ take 4 (drop 8 h) @ take 4 (drop 12 h) @ take 4 (drop 16 h) @ drop 20 h = h"
proof -
  have p: "take i (drop j h) @ drop (i + j) h = drop j h" for i j
    using append_take_drop_id [of i "drop j h"] by simp
  have "take 4 (drop 16 h) @ drop 20 h = drop 16 h" using p [of 4 16] by simp
  moreover have "take 4 (drop 12 h) @ drop 16 h = drop 12 h" using p [of 4 12] by simp
  moreover have "take 4 (drop 8 h) @ drop 12 h = drop 8 h" using p [of 4 8] by simp
  ultimately show ?thesis by simp
qed

lemma ref_uuid_roundtrip: "ref_uuid_parse (ref_uuid_string u) = Some u"
proof -
  let ?h = "hex_of_nat 32 (unat u)"
  have hex: "list_all is_hex ?h" by (rule hex_of_nat_hex)
  then have part: "list_all is_hex (take i (drop j ?h))" "list_all is_hex (drop j ?h)"
      "list_all is_hex (take i ?h)" for i j
    unfolding list_all_iff by (auto dest: in_set_takeD in_set_dropD)
  have dash: "filter (\<lambda>c. c \<noteq> CHR ''-'') ''-'' = []" by simp
  have "filter (\<lambda>c. c \<noteq> CHR ''-'') (ref_uuid_string u) = ?h"
    by (simp only: ref_uuid_string_def Let_def filter_append filter_no_dash [OF part(1)]
        filter_no_dash [OF part(2)] filter_no_dash [OF part(3)] dash append_Nil split_at_dashes)
  moreover have "unat u < 2 ^ LENGTH(128)" by (rule unsigned_less)
  then have "unat u < 16 ^ 32" by simp
  ultimately show ?thesis
    using hex by (simp add: ref_uuid_parse_def nat_of_hex_of_nat)
qed

definition ref_lib :: lib where
  "ref_lib = \<lparr>l_sha256 = (\<lambda>s. s), l_upper = (\<lambda>s. s), l_lower = (\<lambda>s. s),
     l_uuid_string = ref_uuid_string, l_uuid_parse = ref_uuid_parse, l_char3 = (\<lambda>_. None),
     l_jsonb_text = (\<lambda>_. ''{}''), l_url_ok = (\<lambda>_. True), l_format_time = (\<lambda>_ t. format_int t), l_bcrypt_hash = (\<lambda>s. Some s), l_bcrypt_match = (\<lambda>h p. h = p),
     l_jwt_sign = (\<lambda>_ _. None), l_jwt_parse = (\<lambda>_ _ _. None)\<rparr>"

lemma ref_lib_roundtrip: "uuid_roundtrip ref_lib"
  by (simp add: uuid_roundtrip_def ref_lib_def ref_uuid_roundtrip)

definition sample_tenant :: "uuid \<Rightarrow> tenant_row" where
  "sample_tenant u = \<lparr>ten_id = u, ten_name = ''Acme'', ten_created = 0,
     ten_webhook_url = Some ''https://m.example/h'', ten_webhook_secret = Some ''s3cret''\<rparr>"

definition ref_db :: db where
  "ref_db = empty_db\<lparr>tenants := [sample_tenant 1, sample_tenant 2]\<rparr>"

definition ref_uuid :: "nat \<Rightarrow> uuid" where
  "ref_uuid n = word_of_int (int (100 + n))"

definition ref_world :: "db \<Rightarrow> fault list \<Rightarrow> world" where
  "ref_world d fs = \<lparr>w_db = d, w_tx = d, w_faults = fs, w_now = 1000,
     w_uuid = ref_uuid, w_gen = 0, w_rand = (\<lambda>n. replicate 32 (char_of (n mod 256))), w_seq = 1, w_created = 0,
     w_queue = (\<lambda>_. []), w_merchant = (\<lambda>_. Status 200), w_sent = [], w_deadline = None\<rparr>"

lemma ref_world_simps [simp]:
  "w_created (ref_world d fs) = 0" "w_sent (ref_world d fs) = []" "w_queue (ref_world d fs) = (\<lambda>_. [])"
  "w_db (ref_world d fs) = d" "w_tx (ref_world d fs) = d" "w_faults (ref_world d fs) = fs"
  "quiet (ref_world d [])"
  by (simp_all add: ref_world_def quiet_def)

lemma unat_small_uuid: "m < 2000 \<Longrightarrow> unat (word_of_int (int m) :: uuid) = m"
  by (simp only: of_int_of_nat_eq) (simp add: unat_of_nat take_bit_nat_eq_self)

lemma unat_ref_uuid: "n < 1000 \<Longrightarrow> unat (ref_uuid n) = 100 + n"
  unfolding ref_uuid_def by (rule unat_small_uuid) simp

lemma ref_fresh:
  assumes "k \<le> 1000" and "\<forall>u \<in> used_ids d. unat u < 100" and "\<forall>e \<in> set (ledger d). led_id e = 0"
  shows "fresh_ids k (ref_world d fs)"
proof -
  have "ref_uuid n \<notin> used_ids d" if "n < k" for n
  proof
    assume "ref_uuid n \<in> used_ids d"
    with assms(2) have "unat (ref_uuid n) < 100" by blast
    moreover have "unat (ref_uuid n) = 100 + n" using that assms(1) by (intro unat_ref_uuid) simp
    ultimately show False by simp
  qed
  moreover have "inj_on ref_uuid {0..<k}"
  proof (rule inj_onI)
    fix m n assume mn: "m \<in> {0..<k}" "n \<in> {0..<k}" and e: "ref_uuid m = ref_uuid n"
    then have small: "m < 1000" "n < 1000" using assms(1) by simp_all
    have "100 + m = 100 + n"
      using unat_ref_uuid [OF small(1)] unat_ref_uuid [OF small(2)] unfolding e by (rule trans [OF sym])
    then show "m = n" by simp
  qed
  ultimately show ?thesis using assms(3) by (simp add: fresh_ids_def ref_world_def)
qed

text \<open>What a run on the reference world unfolds to.\<close>

lemmas world_eval =
  with_tx_def defer_rollback_def begin_tx_def commit_tx_def op_ok_def op_err_def op_then_def
  op_try_def op_mod_def op_get_def exec_def query_def cur_fault_def tick_def spend_def gen_of_def

lemmas ref_eval = ref_world_def ref_db_def empty_db_def sample_tenant_def

end
