(* ===== verification/Settlement.thy ===== *)
theory Settlement
  imports Ledger Reference
begin

text \<open>
  The contract the worker relies on when it settles a payment or a refund: a step inside a
  transaction that either fails, leaving the committed tables alone, or leaves the object
  settled in the transaction's copy, and that does nothing to an object already settled. It is
  what makes redelivery of a job harmless (docs/contracts/async-plane.md, worker semantics).
\<close>

lemmas ledger_eval =
  sql_insert_ledger_def ledger_append_def audit_write_def insert_payment_settlement_def
  insert_refund_settlement_def sql_insert_audit_def sql_insert_outbox_def led_key_def

locale settlement =
  fixes settle_tx :: "uuid \<Rightarrow> unit action"
    and settled :: "uuid \<Rightarrow> db \<Rightarrow> bool"
  assumes reaches: "wp (settle_tx i) (\<lambda>_ v. w_db v = w_db w \<and> settled i (w_tx v))
      (\<lambda>_ v. w_db v = w_db w) w"
    and no_op: "settled i (w_tx w) \<Longrightarrow>
      wp (settle_tx i) (\<lambda>_ v. w_db v = w_db w \<and> w_tx v = w_tx w) (\<lambda>_ v. w_db v = w_db w) w"
begin

lemma committed_settled:
  "wp (with_tx (op_then (settle_tx i) (\<lambda>_. commit_tx)))
     (\<lambda>_ v. settled i (w_db v)) (\<lambda>_ v. w_db v = w_db w \<or> settled i (w_db v)) w"
  by (rule wp_with_txI, simp, rule wp_thenI, rule wp_mono [OF reaches], rule wp_commitI) auto

lemma settled_unchanged:
  assumes "settled i (w_db w)"
  shows "wp (with_tx (op_then (settle_tx i) (\<lambda>_. commit_tx)))
     (\<lambda>_ v. w_db v = w_db w) (\<lambda>_ v. w_db v = w_db w) w"
  by (rule wp_with_txI, simp, rule wp_thenI, rule wp_mono [OF no_op], simp add: assms,
      rule wp_commitI) auto

text \<open>After one success, no redelivery of the job changes the database.\<close>

lemma redelivery:
  assumes "with_tx (op_then (settle_tx i) (\<lambda>_. commit_tx)) w = (Inr (), w1)"
    and "w_db w2 = w_db w1"
    and "with_tx (op_then (settle_tx i) (\<lambda>_. commit_tx)) w2 = (r, w3)"
  shows "w_db w3 = w_db w1"
proof -
  have "settled i (w_db w1)" by (rule wp_Inr [OF committed_settled assms(1)])
  then have "settled i (w_db w2)" by (simp add: assms(2))
  note n = settled_unchanged [OF this]
  show ?thesis
  proof (cases r)
    case (Inl e)
    with wp_Inl [OF n, of e w3] assms(2,3) show ?thesis by simp
  next
    case (Inr u)
    with wp_Inr [OF n, of u w3] assms(2,3) show ?thesis by simp
  qed
qed

end

end
