(* ===== verification/Payment.thy ===== *)
theory Payment
  imports Settlement
begin

text \<open>
  \<open>internal/payment\<close>: creation under an idempotency key, reading back, and the mock
  settlement that moves a payment from pending to succeeded.

  The properties: what a first submission writes, that a repeated one returns the same payment
  and writes nothing, that a changed one is refused, that a submission is all or nothing under
  any failure of a database call, that retrying after any failures leaves exactly one payment,
  when two submissions have the same fingerprint, and that settlement happens once.
\<close>

section \<open>Fingerprint\<close>

definition fingerprint_json :: "int64 \<Rightarrow> string \<Rightarrow> string" where
  "fingerprint_json amt cur =
     CHR ''{'' # json_string ''amount_cents'' @ CHR '':'' # format_int (sint amt) @
     CHR '','' # json_string ''currency'' @ CHR '':'' # json_string cur @ ''}''"

definition request_fingerprint :: "lib \<Rightarrow> int64 \<Rightarrow> string \<Rightarrow> string" where
  "request_fingerprint L amt currency =
     (let cur = to_upper (l_upper L) (trim_space currency)
      in hex_encode (l_sha256 L (fingerprint_json amt cur)))"

section \<open>Create\<close>

definition scope_payment_create :: string where
  "scope_payment_create = ''payment:create''"

definition ledger_payment_accepted :: string where
  "ledger_payment_accepted = ''payment.accepted''"

definition ledger_settlement_completed :: string where
  "ledger_settlement_completed = ''settlement.completed''"

definition validate_create :: "int64 \<Rightarrow> string \<Rightarrow> string \<Rightarrow> unit action" where
  "validate_create amt currency key =
     (if trim_space key = [] \<or> length key > 200 then op_err (ErrPaymentInvalidInput ''idempotency key'')
      else if sint amt \<le> 0 then op_err (ErrPaymentInvalidInput ''amount_cents'')
      else let cur = trim_space currency
           in if length cur \<noteq> 3 then op_err (ErrPaymentInvalidInput ''currency'') else op_ok ())"

text \<open>
  Storing a string in a \<open>CHAR(3)\<close> column: padded with spaces, refused when it has more
  characters, unless they are spaces. Of a string that is not ASCII the characters are
  counted by Postgres.
\<close>

definition pg_char3 :: "lib \<Rightarrow> string \<Rightarrow> string option" where
  "pg_char3 L s =
     (if is_ascii s
      then if length s \<le> 3 then Some (s @ replicate (3 - length s) CHR '' '')
           else if set (drop 3 s) \<subseteq> {CHR '' ''} then Some (take 3 s) else None
      else l_char3 L s)"

definition pay_idem :: "payment \<Rightarrow> uuid \<times> string \<times> string" where
  "pay_idem p = (pay_tenant p, pay_scope p, pay_key p)"

definition sql_insert_payment ::
  "lib \<Rightarrow> uuid \<Rightarrow> int64 \<Rightarrow> string \<Rightarrow> string \<Rightarrow> string \<Rightarrow> string \<Rightarrow> payment option stmt" where
  "sql_insert_payment L tenant amt cur scope key fp g d =
     (case pg_char3 L cur of
        None \<Rightarrow> Inl ErrDB
      | Some c \<Rightarrow>
          let p = \<lparr>pay_id = g_uuid g, pay_tenant = tenant, pay_amount = amt, pay_currency = c,
                   pay_status = ''pending'', pay_key = key, pay_scope = scope, pay_hash = fp,
                   pay_created = g_now g, pay_updated = g_now g\<rparr>
          in if sint amt \<le> 0 then Inl ErrDB
             else if (tenant, scope, key) \<in> pay_idem ` set (payments d) then Inr (None, d)
             else if g_uuid g \<in> pay_id ` set (payments d) then Inl ErrDB
             else if tenant \<notin> ten_id ` set (tenants d) then Inl ErrDB
             else Inr (Some p, d\<lparr>payments := payments d @ [p]\<rparr>))"

definition sql_select_payment_by_key ::
  "uuid \<Rightarrow> string \<Rightarrow> string \<Rightarrow> db \<Rightarrow> payment option" where
  "sql_select_payment_by_key tenant scope key d =
     find (\<lambda>p. pay_idem p = (tenant, scope, key)) (payments d)"

text \<open>The \<open>Payment\<close> value the call returns: the request's fields and the row's id, status and times.\<close>

definition created_payment ::
  "uuid \<Rightarrow> int64 \<Rightarrow> string \<Rightarrow> string \<Rightarrow> string \<Rightarrow> payment \<Rightarrow> payment" where
  "created_payment tenant amt cur key hash row =
     \<lparr>pay_id = pay_id row, pay_tenant = tenant, pay_amount = amt, pay_currency = cur,
      pay_status = pay_status row, pay_key = key, pay_scope = scope_payment_create,
      pay_hash = hash, pay_created = pay_created row, pay_updated = pay_updated row\<rparr>"

text \<open>
  \<open>metrics.PaymentsCreated\<close>, as it is registered, with its value in a world, and its \<open>Inc\<close>.
\<close>

record counter =
  ctr_name :: string
  ctr_help :: string
  ctr_value :: nat

definition payments_created :: "world \<Rightarrow> counter" where
  "payments_created w = \<lparr>ctr_name = ''payflow_payments_created_total'',
     ctr_help = ''New payment rows created (not idempotent replays).'', ctr_value = w_created w\<rparr>"

definition count_payment :: "unit action" where
  "count_payment = op_mod (\<lambda>w. w\<lparr>w_created := Suc (w_created w)\<rparr>)"

definition payment_create ::
  "lib \<Rightarrow> uuid \<Rightarrow> string \<Rightarrow> int64 \<Rightarrow> string \<Rightarrow> (payment \<times> bool) action" where
  "payment_create L tenant key amt currency =
     op_then (validate_create amt currency key) (\<lambda>_.
     let cur = to_upper (l_upper L) (trim_space currency);
         fp = request_fingerprint L amt cur
     in with_tx (
       op_then (exec Tx (sql_insert_payment L tenant amt cur scope_payment_create key fp)) (\<lambda>ins.
       case ins of
         None \<Rightarrow>
           op_then (query Tx (sql_select_payment_by_key tenant scope_payment_create key)) (\<lambda>found.
           case found of
             None \<Rightarrow> op_err ErrNoRows
           | Some row \<Rightarrow>
               if pay_hash row \<noteq> fp then op_err ErrPaymentIdempotencyMismatch
               else op_then commit_tx (\<lambda>_.
                    op_ok (created_payment tenant amt cur key (pay_hash row) row, False)))
       | Some row \<Rightarrow>
           op_then (ledger_append Tx tenant (pay_id row) ledger_payment_accepted ledger_payment_accepted
                     (Some [(''amount_cents'', JNum (sint amt)), (''currency'', JStr cur)])) (\<lambda>_.
           op_then (audit_write Tx (Some tenant) ''payment_created''
                     (Some [(''payment_id'', JStr (l_uuid_string L (pay_id row))),
                            (''amount_cents'', JNum (sint amt)), (''currency'', JStr cur)])) (\<lambda>_.
           op_then (insert_payment_settlement L Tx (pay_id row)) (\<lambda>_.
           op_then commit_tx (\<lambda>_.
           op_then count_payment (\<lambda>_.
           op_ok (created_payment tenant amt cur key fp row, True)))))))))"

section \<open>Get\<close>

definition payment_get :: "uuid \<Rightarrow> uuid \<Rightarrow> payment action" where
  "payment_get tenant pid =
     op_then (query Pool (\<lambda>d. find (\<lambda>p. pay_id p = pid \<and> pay_tenant p = tenant) (payments d)))
       (\<lambda>r. case r of None \<Rightarrow> op_err ErrPaymentNotFound | Some p \<Rightarrow> op_ok p)"

section \<open>Settlement\<close>

definition sql_settle_payment :: "uuid \<Rightarrow> unit stmt" where
  "sql_settle_payment pid g d =
     Inr ((), d\<lparr>payments := update_where (\<lambda>p. pay_id p = pid \<and> pay_status p = ''pending'')
                (\<lambda>p. p\<lparr>pay_status := ''succeeded'', pay_updated := g_now g\<rparr>) (payments d)\<rparr>)"

definition payment_settle_tx :: "uuid \<Rightarrow> unit action" where
  "payment_settle_tx pid =
     op_then (query Tx (\<lambda>d. map_option (\<lambda>p. (pay_tenant p, pay_status p))
                (find (\<lambda>p. pay_id p = pid) (payments d))))
       (\<lambda>r. case r of
          None \<Rightarrow> op_ok ()
        | Some (tenant, status) \<Rightarrow>
            if status = ''succeeded'' then op_ok ()
            else op_then (ledger_append Tx tenant pid ledger_settlement_completed
                            ledger_settlement_completed (Some [(''mock'', JBool True)]))
                   (\<lambda>_. exec Tx (sql_settle_payment pid)))"

definition payment_settle :: "uuid \<Rightarrow> unit action" where
  "payment_settle pid = with_tx (op_then (payment_settle_tx pid) (\<lambda>_. commit_tx))"

interpretation pay_ins: keyed_insert payments pay_idem "\<lambda>(t, a, c, s, k, h). (t, s, k)"
  "\<lambda>(t, a, c, s, k, h). sql_insert_payment L t a c s k h"
  by unfold_locales
    (auto simp: sql_insert_payment_def pay_idem_def Let_def split: if_splits option.splits)

section \<open>What one accepted submission does\<close>

text \<open>
  The specification of a first submission: one new row in each of four tables, and nothing
  else. The payment is pending, its outbox row is unprocessed and names it.
\<close>

definition accepted ::
  "lib \<Rightarrow> uuid \<Rightarrow> string \<Rightarrow> int64 \<Rightarrow> string \<Rightarrow> payment \<Rightarrow> db \<Rightarrow> db \<Rightarrow> bool" where
  "accepted L tenant key amt currency row d d' \<longleftrightarrow>
     (let cur = to_upper (l_upper L) (trim_space currency) in
     pay_idem row = (tenant, scope_payment_create, key) \<and>
     pay_amount row = amt \<and> Some (pay_currency row) = pg_char3 L cur \<and>
     pay_hash row = request_fingerprint L amt cur \<and> pay_status row = ''pending'' \<and>
     (tenant, scope_payment_create, key) \<notin> pay_idem ` set (payments d) \<and>
     pay_id row \<notin> pay_id ` set (payments d) \<and> 0 < sint amt \<and>
     tenant \<in> ten_id ` set (tenants d) \<and>
     (\<exists>ev au ob.
        led_tenant ev = tenant \<and> led_key ev = (pay_id row, ledger_payment_accepted) \<and>
        led_event ev = ledger_payment_accepted \<and>
        led_payload ev = JObj [(''amount_cents'', JNum (sint amt)), (''currency'', JStr cur)] \<and>
        aud_tenant au = Some tenant \<and> aud_event au = ''payment_created'' \<and>
        out_id ob \<notin> out_id ` set (outbox d) \<and>
        out_kind ob = kind_payment_settlement \<and> out_processed ob = None \<and>
        out_payload ob = JObj [(''payment_id'', JStr (l_uuid_string L (pay_id row)))] \<and>
        d' = d\<lparr>audits := audits d @ [au], payments := payments d @ [row],
               ledger := ledger d @ [ev], outbox := outbox d @ [ob]\<rparr>))"

text \<open>Every ledger event is about a payment that is there (the table's foreign key).\<close>

definition ledger_refs :: "db \<Rightarrow> bool" where
  "ledger_refs d \<longleftrightarrow> led_payment ` set (ledger d) \<subseteq> pay_id ` set (payments d)"

lemma sql_insert_payment_None:
  "sql_insert_payment L t a c s k h g d = Inr (None, d') \<Longrightarrow> d' = d"
  using pay_ins.ins_None [of L "(t, a, c, s, k, h)" g d d'] by simp

lemma sql_insert_payment_conflict:
  "sql_insert_payment L t a c s k h g d = Inr (None, d') \<Longrightarrow> (t, s, k) \<in> pay_idem ` set (payments d)"
  using pay_ins.ins_None [of L "(t, a, c, s, k, h)" g d d'] by simp

lemma sql_insert_payment_Some:
  "sql_insert_payment L t a c s k h g d = Inr (Some row, d') \<Longrightarrow>
   pay_idem row = (t, s, k) \<and> pay_amount row = a \<and> Some (pay_currency row) = pg_char3 L c \<and>
   pay_hash row = h \<and> pay_status row = ''pending'' \<and> pay_tenant row = t \<and> 0 < sint a \<and>
   (t, s, k) \<notin> pay_idem ` set (payments d) \<and> pay_id row \<notin> pay_id ` set (payments d) \<and>
   t \<in> ten_id ` set (tenants d) \<and> d' = d\<lparr>payments := payments d @ [row]\<rparr>"
  by (auto simp: sql_insert_payment_def pay_idem_def Let_def split: if_splits option.splits)

lemma acceptedI:
  assumes "ledger_refs d"
    and "sql_insert_payment L t amt (to_upper (l_upper L) (trim_space c)) scope_payment_create k
           (request_fingerprint L amt (to_upper (l_upper L) (trim_space c))) g d = Inr (Some row, d1)"
    and "sql_insert_ledger t (pay_id row) ledger_payment_accepted ledger_payment_accepted
           (JObj [(''amount_cents'', JNum (sint amt)),
                  (''currency'', JStr (to_upper (l_upper L) (trim_space c)))]) g1 d1 = Inr (x, d2)"
    and "sql_insert_audit (Some t) ''payment_created'' j g2 d2 = Inr ((), d3)"
    and "sql_insert_outbox kind_payment_settlement
           (JObj [(''payment_id'', JStr (l_uuid_string L (pay_id row)))]) g3 d3 = Inr ((), d4)"
  shows "accepted L t k amt c row d d4"
proof -
  have new: "pay_id row \<notin> pay_id ` set (payments d)" and l1: "ledger d1 = ledger d"
    using assms(2) by (auto simp: sql_insert_payment_def Let_def split: if_splits option.splits)
  have "(pay_id row, k') \<notin> led_key ` set (ledger d1)" for k'
    using assms(1) new l1 by (force simp: ledger_refs_def led_key_def)
  with assms(3) obtain ev where ev: "x = Some ev"
    by (cases x) (auto simp: sql_insert_ledger_def Let_def split: if_splits)
  note row = sql_insert_payment_Some [OF assms(2)]
  note led = sql_insert_ledger_Some [OF assms(3) [unfolded ev]]
  obtain au where au: "aud_tenant au = Some t" "aud_event au = ''payment_created''"
      "d3 = d2\<lparr>audits := audits d2 @ [au]\<rparr>"
    using sql_insert_audit_ok [OF assms(4)] by blast
  obtain ob where ob: "out_kind ob = kind_payment_settlement" "out_processed ob = None"
      "out_payload ob = JObj [(''payment_id'', JStr (l_uuid_string L (pay_id row)))]"
      "out_id ob \<notin> out_id ` set (outbox d3)" "d4 = d3\<lparr>outbox := outbox d3 @ [ob]\<rparr>"
    using sql_insert_outbox_ok [OF assms(5)] by blast
  show ?thesis
    unfolding accepted_def Let_def
    using row led au ob by (intro conjI exI [of _ ev] exI [of _ au] exI [of _ ob]) simp_all
qed

text \<open>Whichever calls fail, a submission does nothing or everything.\<close>

lemma payment_create_wp:
  assumes "ledger_refs (w_db w)"
  shows "wp (payment_create L t k amt c)
    (\<lambda>(p, b) v. if b then (\<exists>row. accepted L t k amt c row (w_db w) (w_db v) \<and> pay_id p = pay_id row)
       else w_db v = w_db w)
    (\<lambda>e v. w_db v = w_db w \<or> (\<exists>row. accepted L t k amt c row (w_db w) (w_db v))) w"
  unfolding payment_create_def count_payment_def validate_create_def Let_def
  using assms
  by (intro wp_rules; (simp; fail)?)
    (auto dest: sql_insert_payment_None acceptedI simp: created_payment_def)

text \<open>Once the key is taken, no submission under it changes the tables.\<close>

lemma payment_create_taken:
  assumes "(t, scope_payment_create, k) \<in> pay_idem ` set (payments (w_db w))"
  shows "wp (payment_create L t k amt c)
    (\<lambda>(p, b) v. w_db v = w_db w \<and> \<not> b \<and>
       (\<exists>row \<in> set (payments (w_db w)). pay_idem row = (t, scope_payment_create, k) \<and> pay_id p = pay_id row))
    (\<lambda>e v. w_db v = w_db w) w"
  unfolding payment_create_def count_payment_def validate_create_def Let_def
  using assms
  apply (intro wp_rules; (simp; fail)?)
  subgoal
    by (auto dest: sql_insert_payment_None)
  subgoal
    by (auto dest!: sql_insert_payment_None find_Some_iff_in simp: created_payment_def
        sql_select_payment_by_key_def)
  subgoal for v x d va row
    using pay_ins.ins_Some [of L "(t, amt, to_upper (l_upper L) (trim_space c), scope_payment_create, k,
       request_fingerprint L amt (to_upper (l_upper L) (trim_space c)))" "gen_of v" "w_db w" row d]
    by simp
  subgoal for v x d va row
    using pay_ins.ins_Some [of L "(t, amt, to_upper (l_upper L) (trim_space c), scope_payment_create, k,
       request_fingerprint L amt (to_upper (l_upper L) (trim_space c)))" "gen_of v" "w_db w" row d]
    by simp
  done

section \<open>First submission, repetition, conflict\<close>

text \<open>The requests that pass validation, with an ASCII currency.\<close>

definition valid_create :: "string \<Rightarrow> int64 \<Rightarrow> string \<Rightarrow> bool" where
  "valid_create key amt currency \<longleftrightarrow> trim_space key \<noteq> [] \<and> length key \<le> 200 \<and> 0 < sint amt \<and>
     is_ascii currency \<and> length (trim_space currency) = 3"

lemma valid_create_char3:
  assumes "valid_create k amt c"
  shows "pg_char3 L (to_upper (l_upper L) (trim_space c)) = Some (to_upper (l_upper L) (trim_space c))"
  using assms by (simp add: valid_create_def pg_char3_def trim_space_ascii to_upper_is_ascii length_to_upper)

lemma valid_create_validate: "valid_create k amt c \<Longrightarrow> validate_create amt c k = op_ok ()"
  by (auto simp: validate_create_def valid_create_def Let_def)

lemma find_pay_idem:
  assumes "distinct (map pay_idem (payments d))" and "row \<in> set (payments d)"
    and "pay_idem row = (t, s, k)"
  shows "sql_select_payment_by_key t s k d = Some row"
  using find_distinct [OF assms(1,2)] assms(3) by (simp add: sql_select_payment_by_key_def)

lemma payment_create_succeeds:
  assumes "quiet w" and "fresh_ids 4 w" and "ledger_refs (w_db w)"
    and "valid_create k amt c" and "t \<in> ten_id ` set (tenants (w_db w))"
    and "(t, scope_payment_create, k) \<notin> pay_idem ` set (payments (w_db w))"
  shows "\<exists>p w'. payment_create L t k amt c w = (Inr (p, True), w') \<and> w_created w' = Suc (w_created w)"
proof -
  let ?u = "\<lambda>j. w_uuid w (w_gen w + j)"
  have ids: "?u 0 \<notin> pay_id ` set (payments (w_db w))" "?u 2 \<notin> aud_id ` set (audits (w_db w))"
    "?u 3 \<notin> out_id ` set (outbox (w_db w))"
    using fresh_ids_use [OF assms(2), of 0] fresh_ids_use [OF assms(2), of 2]
      fresh_ids_use [OF assms(2), of 3] by (simp_all add: used_ids_def)
  have led: "(?u 0, j) \<notin> led_key ` set (ledger (w_db w))" for j
    using assms(3) ids(1) by (force simp: ledger_refs_def led_key_def)
  show ?thesis
    unfolding payment_create_def count_payment_def valid_create_validate [OF assms(4)]
    using assms(1,5,6) ids led fresh_ids_seq [OF assms(2), of 1] valid_create_char3 [OF assms(4), of L]
      assms(4)
    by (simp add: Let_def op_ok_apply exec_quiet commit_quiet with_tx_quiet op_then_def
        sql_insert_payment_def sql_insert_ledger_def ledger_append_def audit_write_def
        insert_payment_settlement_def sql_insert_audit_def sql_insert_outbox_def
        op_mod_def valid_create_def numeral_2_eq_2 numeral_3_eq_3)
qed

text \<open>
  C11: a first submission with valid input succeeds, writes exactly the four rows of
  \<open>accepted\<close> and counts one payment.
\<close>

theorem payment_create_fresh:
  assumes "quiet w" and "fresh_ids 4 w" and "ledger_refs (w_db w)"
    and "valid_create k amt c" and "t \<in> ten_id ` set (tenants (w_db w))"
    and "(t, scope_payment_create, k) \<notin> pay_idem ` set (payments (w_db w))"
  shows "\<exists>p row w'. payment_create L t k amt c w = (Inr (p, True), w') \<and>
     accepted L t k amt c row (w_db w) (w_db w') \<and> pay_id p = pay_id row \<and>
     w_created w' = Suc (w_created w)"
proof -
  obtain p w' where run: "payment_create L t k amt c w = (Inr (p, True), w')" "w_created w' = Suc (w_created w)"
    using payment_create_succeeds [OF assms] by blast
  from wp_Inr [OF payment_create_wp [OF assms(3)] run(1)] run show ?thesis by auto
qed

theorem payment_create_fresh_witness:
  "\<exists>p row w'. payment_create ref_lib 1 ''k1'' 250 '' eur'' (ref_world ref_db []) = (Inr (p, True), w') \<and>
     accepted ref_lib 1 ''k1'' 250 '' eur'' row ref_db (w_db w') \<and> pay_id p = pay_id row \<and>
     w_created w' = 1"
proof -
  have "fresh_ids 4 (ref_world ref_db [])" by (rule ref_fresh) (simp_all add: ref_db_def sample_tenant_def empty_db_def used_ids_def)
  moreover have "ledger_refs (w_db (ref_world ref_db []))" by code_simp
  moreover have "valid_create ''k1'' 250 '' eur''" by code_simp
  moreover have "(1 :: uuid) \<in> ten_id ` set (tenants (w_db (ref_world ref_db [])))" by code_simp
  moreover have "(1, scope_payment_create, ''k1'') \<notin> pay_idem ` set (payments (w_db (ref_world ref_db [])))" by code_simp
  ultimately show ?thesis
    using payment_create_fresh [of "ref_world ref_db []" "''k1''" 250 "'' eur''" 1 ref_lib]
    by simp
qed

text \<open>
  C12: repeating a submission under the same key with the same fingerprint returns the stored
  payment's id, status and times, marked as not created, and leaves the database and the
  counter alone.
\<close>

theorem payment_create_replay:
  assumes "quiet w" and "valid_create k amt c" and "distinct (map pay_idem (payments (w_db w)))"
    and "row \<in> set (payments (w_db w))" and "pay_idem row = (t, scope_payment_create, k)"
    and "pay_hash row = request_fingerprint L amt (to_upper (l_upper L) (trim_space c))"
  shows "\<exists>w'. payment_create L t k amt c w =
      (Inr (created_payment t amt (to_upper (l_upper L) (trim_space c)) k (pay_hash row) row, False), w') \<and>
    w_db w' = w_db w \<and> w_created w' = w_created w"
proof -
  have "(t, scope_payment_create, k) \<in> pay_idem ` set (payments (w_db w))"
    using assms(4,5) by (metis imageI)
  then show ?thesis
    unfolding payment_create_def count_payment_def valid_create_validate [OF assms(2)]
    using assms(1,6) valid_create_char3 [OF assms(2), of L] find_pay_idem [OF assms(3,4,5)] assms(2)
    by (simp add: Let_def op_ok_apply exec_quiet query_quiet commit_quiet with_tx_quiet op_then_def
        sql_insert_payment_def valid_create_def)
qed

definition sample_payment :: "uuid \<Rightarrow> string \<Rightarrow> payment" where
  "sample_payment pid status = \<lparr>pay_id = pid, pay_tenant = 1, pay_amount = 250, pay_currency = ''EUR'',
     pay_status = status, pay_key = ''k1'', pay_scope = scope_payment_create,
     pay_hash = request_fingerprint ref_lib 250 ''EUR'', pay_created = 5, pay_updated = 5\<rparr>"

definition ref_paid_db :: "string \<Rightarrow> db" where
  "ref_paid_db status = ref_db\<lparr>payments := [sample_payment 7 status]\<rparr>"

lemma ref_paid_simps [simp]:
  "payments (ref_paid_db st) = [sample_payment 7 st]" "ledger (ref_paid_db st) = []"
  "pay_idem (sample_payment u st) = (1, scope_payment_create, ''k1'')" "pay_id (sample_payment u st) = u"
  "pay_status (sample_payment u st) = st" "pay_tenant (sample_payment u st) = 1"
  "pay_hash (sample_payment u st) = request_fingerprint ref_lib 250 ''EUR''"
  "tenants (ref_paid_db st) = tenants ref_db"
  by (simp_all add: ref_paid_db_def sample_payment_def pay_idem_def ref_db_def empty_db_def)

theorem payment_create_replay_witness:
  "\<exists>p w'. payment_create ref_lib 1 ''k1'' 250 '' eur'' (ref_world (ref_paid_db ''pending'') []) = (Inr (p, False), w') \<and>
     pay_id p = 7 \<and> w_db w' = ref_paid_db ''pending''"
proof -
  have n: "to_upper (l_upper ref_lib) (trim_space '' eur'') = ''EUR''" by code_simp
  have "valid_create ''k1'' 250 '' eur''" by code_simp
  then show ?thesis
    using payment_create_replay [of "ref_world (ref_paid_db ''pending'') []" "''k1''" 250 "'' eur''"
        "sample_payment 7 ''pending''" 1 ref_lib] unfolding n
    by (fastforce simp: created_payment_def)
qed

text \<open>
  C13: the same key with another fingerprint is refused with the mismatch error and changes
  nothing.
\<close>

theorem payment_create_conflict:
  assumes "quiet w" and "valid_create k amt c" and "distinct (map pay_idem (payments (w_db w)))"
    and "row \<in> set (payments (w_db w))" and "pay_idem row = (t, scope_payment_create, k)"
    and "pay_hash row \<noteq> request_fingerprint L amt (to_upper (l_upper L) (trim_space c))"
  shows "\<exists>w'. payment_create L t k amt c w = (Inl ErrPaymentIdempotencyMismatch, w') \<and>
    w_db w' = w_db w \<and> w_created w' = w_created w"
proof -
  have "(t, scope_payment_create, k) \<in> pay_idem ` set (payments (w_db w))"
    using assms(4,5) by (metis imageI)
  then show ?thesis
    unfolding payment_create_def count_payment_def valid_create_validate [OF assms(2)]
    using assms(1,6) valid_create_char3 [OF assms(2), of L] find_pay_idem [OF assms(3,4,5)] assms(2)
    by (simp add: Let_def op_ok_apply op_err_apply exec_quiet query_quiet commit_quiet with_tx_quiet op_then_def
        sql_insert_payment_def valid_create_def)
qed

theorem payment_create_conflict_witness:
  "\<exists>w'. payment_create ref_lib 1 ''k1'' 251 ''EUR'' (ref_world (ref_paid_db ''pending'') []) =
      (Inl ErrPaymentIdempotencyMismatch, w') \<and> w_db w' = ref_paid_db ''pending''"
proof -
  have "request_fingerprint ref_lib 250 ''EUR'' \<noteq>
      request_fingerprint ref_lib 251 (to_upper (l_upper ref_lib) (trim_space ''EUR''))" by code_simp
  moreover have "valid_create ''k1'' 251 ''EUR''" by code_simp
  ultimately show ?thesis
    using payment_create_conflict [of "ref_world (ref_paid_db ''pending'') []" "''k1''" 251 "''EUR''"
        "sample_payment 7 ''pending''" 1 ref_lib] by fastforce
qed

section \<open>Failures and retries\<close>

text \<open>
  Whichever database calls fail, before or after their effect, a submission leaves the
  database as it was or with the complete effect of one accepted submission: no payment
  without its ledger event, audit record and outbox row. A reply that says created stands for
  the second case.
\<close>

theorem payment_create_atomic:
  assumes "ledger_refs (w_db w)" and "payment_create L t k amt c w = (r, w')"
  shows "(w_db w' = w_db w \<or> (\<exists>row. accepted L t k amt c row (w_db w) (w_db w'))) \<and>
    (\<forall>p. r = Inr (p, True) \<longrightarrow> (\<exists>row. accepted L t k amt c row (w_db w) (w_db w') \<and> pay_id p = pay_id row))"
proof (cases r)
  case (Inl e)
  then show ?thesis using wp_Inl [OF payment_create_wp [OF assms(1)]] assms(2) by auto
next
  case (Inr x)
  then show ?thesis
    using wp_Inr [OF payment_create_wp [OF assms(1)]] assms(2) by (cases x) (fastforce split: if_splits)
qed

theorem payment_create_atomic_witness:
  "\<exists>r w'. payment_create ref_lib 1 ''k1'' 250 ''EUR'' (ref_world ref_db [NoFault, NoFault, Fails]) = (r, w') \<and>
     (w_db w' = ref_db \<or> (\<exists>row. accepted ref_lib 1 ''k1'' 250 ''EUR'' row ref_db (w_db w')))"
proof -
  have "ledger_refs (w_db (ref_world ref_db [NoFault, NoFault, Fails]))"
    by (simp add: ledger_refs_def ref_db_def empty_db_def)
  from payment_create_atomic [OF this surjective_pairing] show ?thesis
    by (metis prod.collapse ref_world_simps(4))
qed

lemma payment_create_atomic_aux:
  assumes "ledger_refs (w_db w)" and "payment_create L t k amt c w = (r, w')"
  shows "w_db w' = w_db w \<or> (\<exists>row. accepted L t k amt c row (w_db w) (w_db w'))"
  using payment_create_atomic [OF assms] by blast

lemma payment_create_taken_db:
  assumes "(t, scope_payment_create, k) \<in> pay_idem ` set (payments (w_db w))"
    and "payment_create L t k amt c w = (r, w')"
  shows "w_db w' = w_db w"
proof (cases r)
  case (Inl e)
  then show ?thesis using wp_Inl [OF payment_create_taken [OF assms(1)]] assms(2) by auto
next
  case (Inr x)
  then show ?thesis using wp_Inr [OF payment_create_taken [OF assms(1)]] assms(2) by (cases x) auto
qed

lemma accepted_taken:
  "accepted L t k amt c row d d' \<Longrightarrow> (t, scope_payment_create, k) \<in> pay_idem ` set (payments d')"
  by (auto simp: accepted_def Let_def)

lemma accepted_unique:
  assumes "accepted L t k amt c row d d'" and "row' \<in> set (payments d')"
    and "pay_idem row' = (t, scope_payment_create, k)"
  shows "row' = row"
proof -
  have "payments d' = payments d @ [row]" "(t, scope_payment_create, k) \<notin> pay_idem ` set (payments d)"
    using assms(1) by (auto simp: accepted_def Let_def)
  then show ?thesis using assms(2,3) by (metis UnE empty_iff empty_set image_eqI list.set(2)
        set_append singletonD)
qed

text \<open>A reply that says not created is about a row that was there.\<close>

lemma payment_create_replayed_wp:
  "wp (payment_create L t k amt c)
    (\<lambda>(p, b) v. \<not> b \<longrightarrow> (t, scope_payment_create, k) \<in> pay_idem ` set (payments (w_db w)))
    (\<lambda>e v. True) w"
  unfolding payment_create_def count_payment_def validate_create_def Let_def
  by (intro wp_rules; (simp; fail)?) (auto dest!: sql_insert_payment_conflict)

lemma payment_create_replayed:
  "payment_create L t k amt c w = (Inr (p, b), w') \<Longrightarrow> \<not> b \<Longrightarrow>
   (t, scope_payment_create, k) \<in> pay_idem ` set (payments (w_db w))"
  using wp_Inr [OF payment_create_replayed_wp, of L t k amt c w "(p, b)" w'] by auto

text \<open>
  A client that repeats the request: each attempt runs under its own schedule of failures.
\<close>

fun create_attempts ::
  "lib \<Rightarrow> uuid \<Rightarrow> string \<Rightarrow> int64 \<Rightarrow> string \<Rightarrow> fault list list \<Rightarrow> world \<Rightarrow> world" where
  "create_attempts L t k amt c [] w = w"
| "create_attempts L t k amt c (fs # fss) w =
     create_attempts L t k amt c fss (snd (payment_create L t k amt c (w\<lparr>w_faults := fs\<rparr>)))"

lemma create_attempts_once:
  assumes "ledger_refs d" and "w_db w = d \<or> (\<exists>row. accepted L t k amt c row d (w_db w))"
  shows "w_db (create_attempts L t k amt c fss w) = d \<or>
    (\<exists>row. accepted L t k amt c row d (w_db (create_attempts L t k amt c fss w)))"
  using assms(2)
proof (induction fss arbitrary: w)
  case Nil
  then show ?case by simp
next
  case (Cons fs fss)
  let ?w = "w\<lparr>w_faults := fs\<rparr>"
  obtain r w1 where run: "payment_create L t k amt c ?w = (r, w1)" by (cases "payment_create L t k amt c ?w")
  have "w_db w1 = d \<or> (\<exists>row. accepted L t k amt c row d (w_db w1))"
  proof (cases "w_db w = d")
    case True
    with payment_create_atomic_aux [OF _ run] assms(1) show ?thesis by simp
  next
    case False
    with Cons.prems obtain row where row: "accepted L t k amt c row d (w_db w)" by blast
    then have "w_db w1 = w_db ?w" by (intro payment_create_taken_db [OF _ run]) (simp add: accepted_taken)
    with row show ?thesis by auto
  qed
  with Cons.IH run show ?case by simp
qed

text \<open>
  C14: any number of attempts, each failing anywhere or nowhere, followed by one that reports
  success, have together the effect of exactly one accepted submission, and the reported
  payment is the one it created.
\<close>

theorem payment_create_retries:
  assumes "ledger_refs (w_db w)" and "(t, scope_payment_create, k) \<notin> pay_idem ` set (payments (w_db w))"
    and "payment_create L t k amt c ((create_attempts L t k amt c fss w)\<lparr>w_faults := fs\<rparr>) = (Inr (p, b), w')"
  shows "\<exists>row. accepted L t k amt c row (w_db w) (w_db w') \<and> pay_id p = pay_id row"
proof -
  let ?v = "(create_attempts L t k amt c fss w)\<lparr>w_faults := fs\<rparr>"
  consider "w_db ?v = w_db w" | row where "accepted L t k amt c row (w_db w) (w_db ?v)"
    using create_attempts_once [OF assms(1), of w] by fastforce
  then show ?thesis
  proof cases
    case 1
    then have refs: "ledger_refs (w_db ?v)" using assms(1) by simp
    have b
    proof (rule ccontr)
      assume "\<not> b"
      then show False using 1 assms(2) payment_create_replayed [OF assms(3)] by simp
    qed
    then show ?thesis using wp_Inr [OF payment_create_wp [OF refs] assms(3)] 1 by auto
  next
    case (2 row)
    then have "(t, scope_payment_create, k) \<in> pay_idem ` set (payments (w_db ?v))"
      by (rule accepted_taken)
    from wp_Inr [OF payment_create_taken [OF this] assms(3)] obtain row' where
      same: "w_db w' = w_db ?v" and row': "row' \<in> set (payments (w_db ?v))"
        "pay_idem row' = (t, scope_payment_create, k)" "pay_id p = pay_id row'"
      by auto
    from 2 row'(1,2) have "row' = row" by (intro accepted_unique) simp_all
    with 2 same row'(3) show ?thesis by auto
  qed
qed

text \<open>A failing attempt, an attempt whose commit is acknowledged too late, and a last one that succeeds.\<close>

definition ref_attempts :: world where
  "ref_attempts = create_attempts ref_lib 1 ''k1'' 250 ''EUR''
     [[NoFault, Fails], [NoFault, NoFault, NoFault, NoFault, NoFault, LostAck]] (ref_world ref_db [])"

lemma ref_create_facts:
  "validate_create 250 ''EUR'' ''k1'' = op_ok ()"
  "to_upper (l_upper ref_lib) (trim_space ''EUR'') = ''EUR''"
  "pg_char3 ref_lib ''EUR'' = Some ''EUR''"
  by (rule valid_create_validate, code_simp, code_simp, code_simp)

lemma ref_attempts_last:
  "case fst (payment_create ref_lib 1 ''k1'' 250 ''EUR'' (ref_attempts\<lparr>w_faults := []\<rparr>)) of
     Inl e \<Rightarrow> False | Inr (p, b) \<Rightarrow> \<not> b \<and> pay_id p = ref_uuid 0"
  by (simp add: ref_attempts_def payment_create_def count_payment_def ref_create_facts Let_def world_eval ledger_eval
      ref_eval sql_insert_payment_def pay_idem_def sql_select_payment_by_key_def created_payment_def)

theorem payment_create_retries_witness:
  "\<exists>p w' row. payment_create ref_lib 1 ''k1'' 250 ''EUR'' (ref_attempts\<lparr>w_faults := []\<rparr>) = (Inr (p, False), w') \<and>
     accepted ref_lib 1 ''k1'' 250 ''EUR'' row ref_db (w_db w') \<and> pay_id row = pay_id p"
proof -
  obtain p w' where run: "payment_create ref_lib 1 ''k1'' 250 ''EUR'' (ref_attempts\<lparr>w_faults := []\<rparr>) = (Inr (p, False), w')"
    using ref_attempts_last by (auto split: sum.splits prod.splits simp: fst_def)
  have "ledger_refs (w_db (ref_world ref_db []))"
    "(1, scope_payment_create, ''k1'') \<notin> pay_idem ` set (payments (w_db (ref_world ref_db [])))"
    by (simp_all add: ledger_refs_def ref_db_def empty_db_def)
  from payment_create_retries [OF this run [unfolded ref_attempts_def]] run show ?thesis by fastforce
qed

section \<open>Fingerprints\<close>

definition collision_free :: "lib \<Rightarrow> string \<Rightarrow> string \<Rightarrow> bool" where
  "collision_free L x y \<longleftrightarrow> (l_sha256 L x = l_sha256 L y \<longrightarrow> x = y)"

lemma fingerprint_json_inj:
  assumes "is_ascii c" and "is_ascii d" and "fingerprint_json a c = fingerprint_json b d"
  shows "a = b \<and> c = d"
proof -
  have "format_int (sint a) @ CHR '','' # json_string ''currency'' @ CHR '':'' # json_string c @ ''}'' =
        format_int (sint b) @ CHR '','' # json_string ''currency'' @ CHR '':'' # json_string d @ ''}''"
    using assms(3) by (simp add: fingerprint_json_def)
  then have "sint a = sint b \<and> json_string ''currency'' @ CHR '':'' # json_string c @ ''}'' =
      json_string ''currency'' @ CHR '':'' # json_string d @ ''}''"
    by (rule format_int_delim_inj) (simp_all add: is_digit_def byte_def)
  then have "sint a = sint b" and "json_string c @ ''}'' = json_string d @ ''}''" by auto
  with json_string_ascii_inj [OF assms(1,2)] show ?thesis by (auto intro: signed_word_eqI)
qed

text \<open>
  C15: two submissions with ASCII currencies have the same fingerprint exactly when they ask for
  the same amount in the same currency, up to surrounding space and letter case, provided the
  digest has no collision on their two bodies.
\<close>

theorem request_fingerprint_iff:
  assumes "is_ascii c" and "is_ascii d"
    and "collision_free L (fingerprint_json a (to_upper (l_upper L) (trim_space c)))
           (fingerprint_json b (to_upper (l_upper L) (trim_space d)))"
  shows "request_fingerprint L a c = request_fingerprint L b d \<longleftrightarrow>
    a = b \<and> map upper_char (trim_space c) = map upper_char (trim_space d)"
proof -
  have u: "to_upper (l_upper L) (trim_space s) = map upper_char (trim_space s)" if "is_ascii s" for s
    using that by (simp add: to_upper_def trim_space_ascii)
  show ?thesis
    using assms(3) fingerprint_json_inj [of "map upper_char (trim_space c)" "map upper_char (trim_space d)" a b]
    by (auto simp: request_fingerprint_def collision_free_def u assms(1,2) trim_space_ascii)
qed

theorem request_fingerprint_iff_witness:
  "request_fingerprint ref_lib 100 '' eur'' = request_fingerprint ref_lib 100 ''EUR'' \<and>
   request_fingerprint ref_lib 100 ''EUR'' \<noteq> request_fingerprint ref_lib 101 ''EUR''"
proof -
  have c: "collision_free ref_lib x y" for x y by (simp add: collision_free_def ref_lib_def)
  have "request_fingerprint ref_lib 100 '' eur'' = request_fingerprint ref_lib 100 ''EUR'' \<longleftrightarrow>
      100 = (100 :: int64) \<and> map upper_char (trim_space '' eur'') = map upper_char (trim_space ''EUR'')"
    by (rule request_fingerprint_iff) (simp_all add: c byte_def)
  moreover have "map upper_char (trim_space '' eur'') = map upper_char (trim_space ''EUR'')" by code_simp
  moreover have "request_fingerprint ref_lib 100 ''EUR'' = request_fingerprint ref_lib 101 ''EUR'' \<longleftrightarrow>
      100 = (101 :: int64) \<and> map upper_char (trim_space ''EUR'') = map upper_char (trim_space ''EUR'')"
    by (rule request_fingerprint_iff) (simp_all add: c byte_def)
  ultimately show ?thesis by simp
qed

section \<open>Settlement happens once\<close>

text \<open>Nothing is left to settle: no such payment, or it has succeeded.\<close>

definition payment_settled :: "uuid \<Rightarrow> db \<Rightarrow> bool" where
  "payment_settled pid d \<longleftrightarrow>
     (case find (\<lambda>p. pay_id p = pid) (payments d) of
        None \<Rightarrow> True
      | Some p \<Rightarrow> pay_status p = ''succeeded'' \<or>
          ((\<forall>q \<in> set (payments d). pay_id q = pid \<longrightarrow> pay_status q \<noteq> ''pending'') \<and>
           (pid, ledger_settlement_completed) \<in> led_key ` set (ledger d)))"

text \<open>The effect of one settlement: the pending payment succeeds, one ledger event says so.\<close>

definition settled_once :: "uuid \<Rightarrow> db \<Rightarrow> db \<Rightarrow> bool" where
  "settled_once pid d d' \<longleftrightarrow>
     (\<exists>p now evs. find (\<lambda>p. pay_id p = pid) (payments d) = Some p \<and> pay_status p \<noteq> ''succeeded'' \<and>
        event_added (pay_tenant p) (pid, ledger_settlement_completed) ledger_settlement_completed
          (ledger d) evs \<and>
        d' = d\<lparr>ledger := ledger d @ evs,
               payments := update_where (\<lambda>p. pay_id p = pid \<and> pay_status p = ''pending'')
                 (\<lambda>p. p\<lparr>pay_status := ''succeeded'', pay_updated := now\<rparr>) (payments d)\<rparr>)"

lemma settled_onceI:
  assumes "find (\<lambda>p. pay_id p = pid) (payments d) = Some p" and "pay_status p \<noteq> ''succeeded''"
    and "sql_insert_ledger (pay_tenant p) pid ledger_settlement_completed
           ledger_settlement_completed j g d = Inr (x, d1)"
    and "sql_settle_payment pid g' d1 = Inr (u, d2)"
  shows "settled_once pid d d2"
proof -
  obtain evs where "event_added (pay_tenant p) (pid, ledger_settlement_completed)
      ledger_settlement_completed (ledger d) evs" "d1 = d\<lparr>ledger := ledger d @ evs\<rparr>"
    using sql_insert_ledger_added [OF assms(3)] by blast
  with assms show ?thesis
    unfolding settled_once_def
    by (intro exI [of _ p] exI [of _ "g_now g'"] exI [of _ evs]) (auto simp: sql_settle_payment_def)
qed

lemma settled_once_settled:
  assumes "settled_once pid d d'"
  shows "payment_settled pid d'"
proof -
  let ?P = "\<lambda>p :: payment. pay_id p = pid \<and> pay_status p = ''pending''"
  from assms obtain p :: payment and now evs where
      evs: "event_added (pay_tenant p) (pid, ledger_settlement_completed) ledger_settlement_completed (ledger d) evs"
    and d: "d' = d\<lparr>ledger := ledger d @ evs,
      payments := update_where ?P (\<lambda>p. p\<lparr>pay_status := ''succeeded'', pay_updated := now\<rparr>) (payments d)\<rparr>"
    unfolding settled_once_def by blast
  have ps: "payments d' = update_where ?P (\<lambda>p. p\<lparr>pay_status := ''succeeded'', pay_updated := now\<rparr>) (payments d)"
    and led: "ledger d' = ledger d @ evs" by (simp_all add: d)
  have "(pid, ledger_settlement_completed) \<in> led_key ` set (ledger d')"
    unfolding led by (rule event_added_key [OF evs])
  moreover have "\<forall>q \<in> set (payments d'). pay_id q = pid \<longrightarrow> pay_status q \<noteq> ''pending''"
    unfolding ps ball_update_where by simp
  ultimately show ?thesis by (simp add: payment_settled_def split: option.splits)
qed

lemma payment_settle_tx_wp:
  "wp (payment_settle_tx pid)
     (\<lambda>_ v. w_db v = w_db w \<and>
        (settled_once pid (w_tx w) (w_tx v) \<or> payment_settled pid (w_tx w) \<and> w_tx v = w_tx w))
     (\<lambda>_ v. w_db v = w_db w) w"
  unfolding payment_settle_tx_def
  by (intro wp_rules; (simp; fail)?)
    (auto intro: settled_onceI simp: payment_settled_def)

lemma payment_settle_tx_no_op:
  assumes "payment_settled pid (w_tx w)"
  shows "wp (payment_settle_tx pid) (\<lambda>_ v. w_db v = w_db w \<and> w_tx v = w_tx w)
     (\<lambda>_ v. w_db v = w_db w) w"
  unfolding payment_settle_tx_def
  using assms
  by (intro wp_rules; (simp; fail)?)
    (auto simp: payment_settled_def sql_settle_payment_def sql_insert_ledger_def Let_def update_where_id
      split: if_splits)

interpretation pay_settle: settlement payment_settle_tx payment_settled
proof
  show "wp (payment_settle_tx i) (\<lambda>_ v. w_db v = w_db w \<and> payment_settled i (w_tx v))
      (\<lambda>_ v. w_db v = w_db w) w" for i w
    by (rule wp_mono [OF payment_settle_tx_wp]) (auto dest: settled_once_settled)
qed (rule payment_settle_tx_no_op)

text \<open>
  C16: whichever calls fail, settling a payment leaves the database as it was or moves exactly
  this payment from pending to succeeded together with its one settlement event; when it
  reports success nothing is left to settle.
\<close>

theorem payment_settle_atomic:
  "wp (payment_settle pid)
     (\<lambda>_ v. payment_settled pid (w_db v) \<and> (w_db v = w_db w \<or> settled_once pid (w_db w) (w_db v)))
     (\<lambda>_ v. w_db v = w_db w \<or> settled_once pid (w_db w) (w_db v)) w"
  unfolding payment_settle_def
  by (rule wp_with_txI, simp, rule wp_thenI, rule wp_mono [OF payment_settle_tx_wp], rule wp_commitI)
    (auto dest: settled_once_settled)

text \<open>
  After one successful settlement of a payment, no redelivery of the job changes the
  database, whether it succeeds or fails.
\<close>

theorem payment_settle_redelivery:
  assumes "payment_settle pid w = (Inr (), w1)" and "w_db w2 = w_db w1"
    and "payment_settle pid w2 = (r, w3)"
  shows "w_db w3 = w_db w1"
  using assms unfolding payment_settle_def by (rule pay_settle.redelivery)

theorem payment_settle_redelivery_witness:
  "\<exists>w1 w3. payment_settle 7 (ref_world (ref_paid_db ''pending'') []) = (Inr (), w1) \<and>
     map pay_status (payments (w_db w1)) = [''succeeded''] \<and> w_db w3 = w_db w1 \<and>
     payment_settle 7 w1 = (Inr (), w3)"
proof -
  let ?w = "ref_world (ref_paid_db ''pending'') []"
  have run: "fst (payment_settle 7 ?w) = Inr () \<and>
      map pay_status (payments (w_db (snd (payment_settle 7 ?w)))) = [''succeeded''] \<and>
      fst (payment_settle 7 (snd (payment_settle 7 ?w))) = Inr ()"
    by (simp add: payment_settle_def payment_settle_tx_def Let_def world_eval ledger_eval ref_eval
        sql_settle_payment_def ref_paid_db_def sample_payment_def update_where_def)
  then have "w_db (snd (payment_settle 7 (snd (payment_settle 7 ?w)))) = w_db (snd (payment_settle 7 ?w))"
    by (intro payment_settle_redelivery [of 7 ?w, OF _ refl]) (simp_all add: prod_eq_iff)
  with run show ?thesis by (metis prod.collapse)
qed

end
