(* ===== verification/Refund.thy ===== *)
theory Refund
  imports Payment
begin

text \<open>
  \<open>internal/refund\<close>: refunds of a settled payment under an idempotency key, full
  (\<open>amount_cents\<close> 0) or partial, and their mock settlement.

  The running total is computed in \<open>int64\<close>: \<open>reserved + amt\<close> wraps around. Below
  2 ^ 62 cents this never happens and the refunds of a payment never exceed it; from there on
  it can, and the check passes.
\<close>

section \<open>Fingerprint\<close>

definition refund_fingerprint_json :: "lib \<Rightarrow> uuid \<Rightarrow> int64 \<Rightarrow> string" where
  "refund_fingerprint_json L pid amt =
     CHR ''{'' # json_string ''payment_id'' @ CHR '':'' # json_string (l_uuid_string L pid) @
     CHR '','' # json_string ''amount_cents'' @ CHR '':'' # format_int (sint amt) @ ''}''"

definition refund_fingerprint :: "lib \<Rightarrow> uuid \<Rightarrow> int64 \<Rightarrow> string" where
  "refund_fingerprint L pid amt = hex_encode (l_sha256 L (refund_fingerprint_json L pid amt))"

section \<open>Create\<close>

definition scope_refund_create :: string where
  "scope_refund_create = ''refund:create''"

definition ledger_refund_requested :: string where
  "ledger_refund_requested = ''refund.requested''"

definition ledger_refund_succeeded :: string where
  "ledger_refund_succeeded = ''refund.succeeded''"

definition ref_idem :: "refund \<Rightarrow> uuid \<times> string \<times> string" where
  "ref_idem r = (ref_tenant r, ref_scope r, ref_key r)"

text \<open>The refunds of a payment that count against it, and their sum (a \<open>NUMERIC\<close>, unbounded).\<close>

definition counts_for :: "uuid \<Rightarrow> refund \<Rightarrow> bool" where
  "counts_for pid r \<longleftrightarrow> ref_payment r = pid \<and> ref_status r \<in> {''pending'', ''succeeded''}"

definition reserved_sum :: "uuid \<Rightarrow> db \<Rightarrow> int" where
  "reserved_sum pid d = sum_list (map (\<lambda>r. sint (ref_amount r)) (filter (counts_for pid) (refunds d)))"

text \<open>Scanning a number into an \<open>int64\<close> fails when it is out of range.\<close>

definition scan_int64 :: "int \<Rightarrow> int64 option" where
  "scan_int64 i = (if - (2 ^ 63) \<le> i \<and> i < 2 ^ 63 then Some (word_of_int i) else None)"

definition sql_insert_refund ::
  "lib \<Rightarrow> uuid \<Rightarrow> uuid \<Rightarrow> int64 \<Rightarrow> string \<Rightarrow> string \<Rightarrow> string \<Rightarrow> string \<Rightarrow> refund option stmt" where
  "sql_insert_refund L tenant pid amt cur scope key fp g d =
     (case pg_char3 L cur of
        None \<Rightarrow> Inl ErrDB
      | Some c \<Rightarrow>
          let r = \<lparr>ref_id = g_uuid g, ref_tenant = tenant, ref_payment = pid, ref_amount = amt,
                   ref_currency = c, ref_status = ''pending'', ref_key = key, ref_scope = scope,
                   ref_hash = fp, ref_created = g_now g, ref_updated = g_now g\<rparr>
          in if sint amt \<le> 0 then Inl ErrDB
             else if (tenant, scope, key) \<in> ref_idem ` set (refunds d) then Inr (None, d)
             else if g_uuid g \<in> ref_id ` set (refunds d) then Inl ErrDB
             else if tenant \<notin> ten_id ` set (tenants d) \<or> pid \<notin> pay_id ` set (payments d) then Inl ErrDB
             else Inr (Some r, d\<lparr>refunds := refunds d @ [r]\<rparr>))"

definition sql_select_refund_by_key :: "uuid \<Rightarrow> string \<Rightarrow> string \<Rightarrow> db \<Rightarrow> refund option" where
  "sql_select_refund_by_key tenant scope key d =
     find (\<lambda>r. ref_idem r = (tenant, scope, key)) (refunds d)"

definition created_refund ::
  "uuid \<Rightarrow> uuid \<Rightarrow> int64 \<Rightarrow> string \<Rightarrow> string \<Rightarrow> string \<Rightarrow> refund \<Rightarrow> refund" where
  "created_refund tenant pid amt cur key hash row =
     \<lparr>ref_id = ref_id row, ref_tenant = tenant, ref_payment = pid, ref_amount = amt,
      ref_currency = cur, ref_status = ref_status row, ref_key = key,
      ref_scope = scope_refund_create, ref_hash = hash, ref_created = ref_created row,
      ref_updated = ref_updated row\<rparr>"

definition refund_dedupe :: "lib \<Rightarrow> uuid \<Rightarrow> string \<Rightarrow> string" where
  "refund_dedupe L rid what = ''refund:'' @ l_uuid_string L rid @ what"

definition refund_create ::
  "lib \<Rightarrow> uuid \<Rightarrow> uuid \<Rightarrow> string \<Rightarrow> int64 \<Rightarrow> (refund \<times> bool) action" where
  "refund_create L tenant pid key amount =
     (if trim_space key = [] \<or> length key > 200 then op_err (ErrRefundInvalidInput ''idempotency key'')
      else with_tx (
       op_then (query Tx (\<lambda>d. find (\<lambda>p. pay_id p = pid) (payments d))) (\<lambda>found.
       case found of
         None \<Rightarrow> op_err ErrRefundNotFound
       | Some p \<Rightarrow>
           if pay_tenant p \<noteq> tenant then op_err ErrRefundNotFound
           else if pay_status p \<noteq> ''succeeded'' then op_err ErrPaymentNotRefundable
           else
           let amt = (if amount = 0 then pay_amount p else amount) in
           if sint amt \<le> 0 \<or> sint amt > sint (pay_amount p) then op_err (ErrRefundInvalidInput [])
           else
           op_then (query Tx (\<lambda>d. scan_int64 (reserved_sum pid d))) (\<lambda>total.
           case total of
             None \<Rightarrow> op_err ErrDB
           | Some reserved \<Rightarrow>
               if sint (reserved + amt) > sint (pay_amount p) then op_err ErrRefundAmountExceeded
               else
               let fp = refund_fingerprint L pid amt;
                   cur = to_upper (l_upper L) (trim_space (pay_currency p)) in
               op_then (exec Tx (sql_insert_refund L tenant pid amt cur scope_refund_create key fp)) (\<lambda>ins.
               case ins of
                 None \<Rightarrow>
                   op_then (query Tx (sql_select_refund_by_key tenant scope_refund_create key)) (\<lambda>old.
                   case old of
                     None \<Rightarrow> op_err ErrNoRows
                   | Some row \<Rightarrow>
                       if ref_hash row \<noteq> fp then op_err ErrRefundIdempotencyMismatch
                       else op_then commit_tx (\<lambda>_.
                            op_ok (created_refund tenant pid amt cur key (ref_hash row) row, False)))
               | Some row \<Rightarrow>
                   op_then (ledger_append Tx tenant pid (refund_dedupe L (ref_id row) '':requested'')
                             ledger_refund_requested
                             (Some [(''refund_id'', JStr (l_uuid_string L (ref_id row))),
                                    (''amount_cents'', JNum (sint amt)), (''currency'', JStr cur)])) (\<lambda>_.
                   op_then (audit_write Tx (Some tenant) ''refund_created''
                             (Some [(''refund_id'', JStr (l_uuid_string L (ref_id row))),
                                    (''payment_id'', JStr (l_uuid_string L pid)),
                                    (''amount_cents'', JNum (sint amt))])) (\<lambda>_.
                   op_then (insert_refund_settlement L Tx (ref_id row)) (\<lambda>_.
                   op_then commit_tx (\<lambda>_.
                   op_ok (created_refund tenant pid amt cur key fp row, True))))))))))"

section \<open>Get\<close>

definition refund_get :: "uuid \<Rightarrow> uuid \<Rightarrow> refund action" where
  "refund_get tenant rid =
     op_then (query Pool (\<lambda>d. find (\<lambda>r. ref_id r = rid \<and> ref_tenant r = tenant) (refunds d)))
       (\<lambda>r. case r of None \<Rightarrow> op_err ErrRefundNotFound | Some x \<Rightarrow> op_ok x)"

section \<open>Settlement\<close>

text \<open>The join of a refund with its payment.\<close>

definition sql_refund_with_payment :: "uuid \<Rightarrow> db \<Rightarrow> (refund \<times> payment) option" where
  "sql_refund_with_payment rid d =
     (case find (\<lambda>r. ref_id r = rid) (refunds d) of
        None \<Rightarrow> None
      | Some r \<Rightarrow> map_option (\<lambda>p. (r, p)) (find (\<lambda>p. pay_id p = ref_payment r) (payments d)))"

definition sql_settle_refund :: "uuid \<Rightarrow> unit stmt" where
  "sql_settle_refund rid g d =
     Inr ((), d\<lparr>refunds := update_where (\<lambda>r. ref_id r = rid \<and> ref_status r = ''pending'')
                (\<lambda>r. r\<lparr>ref_status := ''succeeded'', ref_updated := g_now g\<rparr>) (refunds d)\<rparr>)"

definition refund_settle_tx :: "lib \<Rightarrow> uuid \<Rightarrow> unit action" where
  "refund_settle_tx L rid =
     op_then (query Tx (sql_refund_with_payment rid)) (\<lambda>found.
     case found of
       None \<Rightarrow> op_ok ()
     | Some (r, p) \<Rightarrow>
         if ref_status r \<noteq> ''pending'' then op_ok ()
         else if pay_status p \<noteq> ''succeeded'' then op_err (ErrRefundSettle (ref_payment r) (pay_status p))
         else op_then (ledger_append Tx (ref_tenant r) (ref_payment r)
                         (refund_dedupe L rid '':succeeded'') ledger_refund_succeeded
                         (Some [(''refund_id'', JStr (l_uuid_string L rid))]))
                (\<lambda>_. exec Tx (sql_settle_refund rid)))"

definition refund_settle :: "lib \<Rightarrow> uuid \<Rightarrow> unit action" where
  "refund_settle L rid = with_tx (op_then (refund_settle_tx L rid) (\<lambda>_. commit_tx))"

interpretation ref_ins: keyed_insert refunds ref_idem "\<lambda>(t, p, a, c, s, k, h). (t, s, k)"
  "\<lambda>(t, p, a, c, s, k, h). sql_insert_refund L t p a c s k h"
  by unfold_locales
    (auto simp: sql_insert_refund_def ref_idem_def Let_def split: if_splits option.splits)


section \<open>What one accepted refund does\<close>

text \<open>
  The conditions the handler checks before it writes: a settled payment of the tenant, an
  amount within it, a running total that the wrapped sum lets pass.
\<close>

definition refund_allowed :: "uuid \<Rightarrow> uuid \<Rightarrow> int64 \<Rightarrow> payment \<Rightarrow> db \<Rightarrow> bool" where
  "refund_allowed tenant pid amt p d \<longleftrightarrow>
     find (\<lambda>p. pay_id p = pid) (payments d) = Some p \<and> pay_tenant p = tenant \<and>
     pay_status p = ''succeeded'' \<and> 0 < sint amt \<and> sint amt \<le> sint (pay_amount p) \<and>
     (\<exists>reserved. scan_int64 (reserved_sum pid d) = Some reserved \<and>
        sint (reserved + amt) \<le> sint (pay_amount p))"

definition refund_accepted ::
  "lib \<Rightarrow> uuid \<Rightarrow> uuid \<Rightarrow> string \<Rightarrow> int64 \<Rightarrow> refund \<Rightarrow> db \<Rightarrow> db \<Rightarrow> bool" where
  "refund_accepted L tenant pid key amt row d d' \<longleftrightarrow>
     (\<exists>p. refund_allowed tenant pid amt p d \<and>
        Some (ref_currency row) = pg_char3 L (to_upper (l_upper L) (trim_space (pay_currency p)))) \<and>
     ref_idem row = (tenant, scope_refund_create, key) \<and> ref_payment row = pid \<and>
     ref_amount row = amt \<and> ref_status row = ''pending'' \<and>
     ref_hash row = refund_fingerprint L pid amt \<and>
     (tenant, scope_refund_create, key) \<notin> ref_idem ` set (refunds d) \<and>
     ref_id row \<notin> ref_id ` set (refunds d) \<and>
     (\<exists>evs au ob.
        event_added tenant (pid, refund_dedupe L (ref_id row) '':requested'')
          ledger_refund_requested (ledger d) evs \<and>
        aud_tenant au = Some tenant \<and> aud_event au = ''refund_created'' \<and>
        out_id ob \<notin> out_id ` set (outbox d) \<and>
        out_kind ob = kind_refund_settlement \<and> out_processed ob = None \<and>
        out_payload ob = JObj [(''refund_id'', JStr (l_uuid_string L (ref_id row)))] \<and>
        d' = d\<lparr>audits := audits d @ [au], ledger := ledger d @ evs,
               refunds := refunds d @ [row], outbox := outbox d @ [ob]\<rparr>)"

text \<open>The amount a request comes to: \<open>0\<close> asks for the whole payment.\<close>

definition refund_amount :: "int64 \<Rightarrow> uuid \<Rightarrow> db \<Rightarrow> int64" where
  "refund_amount amount pid d =
     (case find (\<lambda>p. pay_id p = pid) (payments d) of
        None \<Rightarrow> amount | Some p \<Rightarrow> if amount = 0 then pay_amount p else amount)"

lemma sql_insert_refund_None:
  "sql_insert_refund L t p a c s k h g d = Inr (None, d') \<Longrightarrow>
   d' = d \<and> (t, s, k) \<in> ref_idem ` set (refunds d)"
  using ref_ins.ins_None [of L "(t, p, a, c, s, k, h)" g d d'] by simp

lemma sql_insert_refund_Some:
  "sql_insert_refund L t p a c s k h g d = Inr (Some row, d') \<Longrightarrow>
   ref_idem row = (t, s, k) \<and> ref_payment row = p \<and> ref_amount row = a \<and>
   Some (ref_currency row) = pg_char3 L c \<and> ref_hash row = h \<and> ref_status row = ''pending'' \<and>
   (t, s, k) \<notin> ref_idem ` set (refunds d) \<and> ref_id row \<notin> ref_id ` set (refunds d) \<and>
   d' = d\<lparr>refunds := refunds d @ [row]\<rparr>"
  by (auto simp: sql_insert_refund_def ref_idem_def Let_def split: if_splits option.splits)

lemma refund_acceptedI:
  assumes "refund_allowed t pid amt p d"
    and "sql_insert_refund L t pid amt (to_upper (l_upper L) (trim_space (pay_currency p)))
           scope_refund_create k (refund_fingerprint L pid amt) g d = Inr (Some row, d1)"
    and "sql_insert_ledger t pid (refund_dedupe L (ref_id row) '':requested'')
           ledger_refund_requested j g1 d1 = Inr (x, d2)"
    and "sql_insert_audit (Some t) ''refund_created'' j' g2 d2 = Inr ((), d3)"
    and "sql_insert_outbox kind_refund_settlement
           (JObj [(''refund_id'', JStr (l_uuid_string L (ref_id row)))]) g3 d3 = Inr ((), d4)"
  shows "refund_accepted L t pid k amt row d d4"
proof -
  note row = sql_insert_refund_Some [OF assms(2)]
  obtain evs where evs: "event_added t (pid, refund_dedupe L (ref_id row) '':requested'')
      ledger_refund_requested (ledger d) evs" "d2 = d1\<lparr>ledger := ledger d @ evs\<rparr>"
    using sql_insert_ledger_added [OF assms(3)] row by auto
  obtain au where au: "aud_tenant au = Some t" "aud_event au = ''refund_created''"
      "d3 = d2\<lparr>audits := audits d2 @ [au]\<rparr>"
    using sql_insert_audit_ok [OF assms(4)] by blast
  obtain ob where ob: "out_kind ob = kind_refund_settlement" "out_processed ob = None"
      "out_payload ob = JObj [(''refund_id'', JStr (l_uuid_string L (ref_id row)))]"
      "out_id ob \<notin> out_id ` set (outbox d3)" "d4 = d3\<lparr>outbox := outbox d3 @ [ob]\<rparr>"
    using sql_insert_outbox_ok [OF assms(5)] by blast
  show ?thesis
    unfolding refund_accepted_def
    using row evs au ob assms(1)
    by (intro conjI exI [of _ p] exI [of _ evs] exI [of _ au] exI [of _ ob]) simp_all
qed

lemma refund_accepted_run:
  assumes "find (\<lambda>p. pay_id p = pid) (payments d) = Some p" and "pay_tenant p = t"
    and "pay_status p = ''succeeded''"
    and "\<not> sint (if amount = 0 then pay_amount p else amount) \<le> 0 \<and>
      \<not> sint (pay_amount p) < sint (if amount = 0 then pay_amount p else amount)"
    and "scan_int64 (reserved_sum pid d) = Some reserved"
    and "\<not> sint (pay_amount p) < sint (reserved + (if amount = 0 then pay_amount p else amount))"
    and "sql_insert_refund L t pid (if amount = 0 then pay_amount p else amount)
           (to_upper (l_upper L) (trim_space (pay_currency p)))
           scope_refund_create k
           (refund_fingerprint L pid (if amount = 0 then pay_amount p else amount)) g d = Inr (Some row, d1)"
    and "sql_insert_ledger t pid (refund_dedupe L (ref_id row) '':requested'')
           ledger_refund_requested j g1 d1 = Inr (x, d2)"
    and "sql_insert_audit (Some t) ''refund_created'' j' g2 d2 = Inr ((), d3)"
    and "sql_insert_outbox kind_refund_settlement
           (JObj [(''refund_id'', JStr (l_uuid_string L (ref_id row)))]) g3 d3 = Inr ((), d4)"
  shows "refund_accepted L t pid k (refund_amount amount pid d) row d d4"
proof -
  have a: "refund_amount amount pid d = (if amount = 0 then pay_amount p else amount)"
    by (simp add: refund_amount_def assms(1))
  have "refund_allowed t pid (refund_amount amount pid d) p d"
    unfolding a refund_allowed_def using assms(1-6) by (auto simp: not_less not_le)
  from refund_acceptedI [OF this, unfolded a, OF assms(7-10)] show ?thesis unfolding a .
qed

text \<open>Whichever calls fail, a refund request does nothing or everything.\<close>

lemma refund_create_wp:
  "wp (refund_create L t pid k amount)
    (\<lambda>(r, b) v. if b then (\<exists>row. refund_accepted L t pid k (refund_amount amount pid (w_db w)) row (w_db w) (w_db v) \<and>
          ref_id r = ref_id row)
       else w_db v = w_db w)
    (\<lambda>e v. w_db v = w_db w \<or>
       (\<exists>row. refund_accepted L t pid k (refund_amount amount pid (w_db w)) row (w_db w) (w_db v))) w"
  unfolding refund_create_def Let_def
  apply (intro wp_rules; (simp; fail)?)
     apply (simp_all add: created_refund_def)
     apply (auto dest: sql_insert_refund_None)[2]
   apply (rule disjI2, rule exI, rule refund_accepted_run; assumption)
  apply (rule exI, rule conjI, rule refund_accepted_run; (assumption | rule refl))
  done

section \<open>The refunds of a payment never exceed it\<close>

definition refunds_within :: "db \<Rightarrow> bool" where
  "refunds_within d \<longleftrightarrow>
     (\<forall>p \<in> set (payments d). sint (pay_amount p) < 2 ^ 62) \<and>
     (\<forall>r \<in> set (refunds d). 0 < sint (ref_amount r)) \<and>
     (\<forall>p \<in> set (payments d). reserved_sum (pay_id p) d \<le> sint (pay_amount p))"

lemma reserved_sum_append:
  "reserved_sum pid (d\<lparr>audits := au, ledger := le, refunds := refunds d @ [row], outbox := ob\<rparr>) =
   reserved_sum pid d + (if counts_for pid row then sint (ref_amount row) else 0)"
  by (simp add: reserved_sum_def)

lemma reserved_sum_nonneg:
  assumes "\<forall>r \<in> set (refunds d). 0 < sint (ref_amount r)"
  shows "0 \<le> reserved_sum pid d"
  unfolding reserved_sum_def using assms by (intro sum_list_nonneg) auto

text \<open>The wrapped comparison is the true one as long as the amounts are below 2 ^ 62.\<close>

lemma refund_allowed_sum:
  assumes "refund_allowed t pid amt p d" and "refunds_within d"
  shows "reserved_sum pid d + sint amt \<le> sint (pay_amount p)"
proof -
  obtain reserved where p: "p \<in> set (payments d)" "pay_id p = pid" "pay_status p = ''succeeded''"
    and amt: "0 < sint amt" "sint amt \<le> sint (pay_amount p)"
    and r: "scan_int64 (reserved_sum pid d) = Some reserved" "sint (reserved + amt) \<le> sint (pay_amount p)"
    using assms(1) by (auto simp: refund_allowed_def dest: find_Some_iff_in)
  have bound: "0 \<le> reserved_sum pid d" "reserved_sum pid d \<le> sint (pay_amount p)" "sint (pay_amount p) < 2 ^ 62"
    using assms(2) p by (auto simp: refunds_within_def intro: reserved_sum_nonneg)
  have res: "sint reserved = reserved_sum pid d"
    using r(1) bound by (auto simp: scan_int64_def sint64_of_int split: if_splits)
  have "sint (reserved + amt) = sint reserved + sint amt"
    using bound amt by (intro sint64_add_exact) (simp_all add: res)
  with r(2) res show ?thesis by simp
qed

lemma refund_accepted_within:
  assumes "refund_accepted L t pid k amt row d d'" and "refunds_within d" and "distinct (map pay_id (payments d))"
  shows "refunds_within d'"
proof -
  obtain p where al: "refund_allowed t pid amt p d" and row: "ref_payment row = pid" "ref_amount row = amt"
    using assms(1) by (auto simp: refund_accepted_def)
  obtain au le ob where d': "d' = d\<lparr>audits := au, ledger := le, refunds := refunds d @ [row], outbox := ob\<rparr>"
    using assms(1) unfolding refund_accepted_def by blast
  have p: "p \<in> set (payments d)" "pay_id p = pid" "0 < sint amt"
    using al by (auto simp: refund_allowed_def dest: find_Some_iff_in)
  have "reserved_sum (pay_id q) d' \<le> sint (pay_amount q)" if q: "q \<in> set (payments d)" for q
  proof (cases "pay_id q = pid")
    case True
    with distinct_map_unique [OF assms(3) q p(1)] p(2) have "q = p" by simp
    with refund_allowed_sum [OF al assms(2)] row p(2) assms(2) p(1) show ?thesis
      unfolding d' reserved_sum_append by (auto simp: refunds_within_def)
  next
    case False
    with row have "\<not> counts_for (pay_id q) row" by (auto simp: counts_for_def)
    with assms(2) q show ?thesis unfolding d' reserved_sum_append by (auto simp: refunds_within_def)
  qed
  with assms(2) row p(3) show ?thesis unfolding refunds_within_def d' by auto
qed

section \<open>First request and repetition\<close>

definition valid_refund_key :: "string \<Rightarrow> bool" where
  "valid_refund_key key \<longleftrightarrow> trim_space key \<noteq> [] \<and> length key \<le> 200"

lemma refund_allowed_cases:
  assumes "refund_allowed t pid (refund_amount amount pid d) p d"
  obtains reserved where "find (\<lambda>p. pay_id p = pid) (payments d) = Some p" "pay_tenant p = t"
    "pay_status p = ''succeeded''" "0 < sint (if amount = 0 then pay_amount p else amount)"
    "sint (if amount = 0 then pay_amount p else amount) \<le> sint (pay_amount p)"
    "scan_int64 (reserved_sum pid d) = Some reserved"
    "sint (reserved + (if amount = 0 then pay_amount p else amount)) \<le> sint (pay_amount p)"
    "refund_amount amount pid d = (if amount = 0 then pay_amount p else amount)"
proof -
  have f: "find (\<lambda>p. pay_id p = pid) (payments d) = Some p" using assms by (simp add: refund_allowed_def)
  then have a: "refund_amount amount pid d = (if amount = 0 then pay_amount p else amount)"
    by (simp add: refund_amount_def)
  show thesis
    using assms f a that unfolding refund_allowed_def a by blast
qed

lemma refund_accepted_refunds:
  assumes "refund_accepted L t pid k amt row d d'"
  shows "refunds d' = refunds d @ [row]"
proof -
  obtain au le ob where "d' = d\<lparr>audits := au, ledger := le, refunds := refunds d @ [row], outbox := ob\<rparr>"
    using assms unfolding refund_accepted_def by blast
  then show ?thesis by simp
qed

text \<open>
  C17: the first refund request under a key, for a settled payment of the tenant and an amount
  the balance allows, succeeds and writes exactly the rows of \<open>refund_accepted\<close>.
\<close>

theorem refund_create_fresh:
  assumes "quiet w" and "fresh_ids 6 w" and "valid_refund_key k" and "t \<in> ten_id ` set (tenants (w_db w))"
    and "refund_allowed t pid (refund_amount amount pid (w_db w)) p (w_db w)"
    and "pg_char3 L (to_upper (l_upper L) (trim_space (pay_currency p))) = Some c"
    and "(t, scope_refund_create, k) \<notin> ref_idem ` set (refunds (w_db w))"
  shows "\<exists>r row w'. refund_create L t pid k amount w = (Inr (r, True), w') \<and>
     refund_accepted L t pid k (refund_amount amount pid (w_db w)) row (w_db w) (w_db w') \<and>
     ref_id r = ref_id row"
proof -
  let ?u = "\<lambda>j. w_uuid w (w_gen w + j)"
  have ids: "?u 2 \<notin> ref_id ` set (refunds (w_db w))" "?u 4 \<notin> aud_id ` set (audits (w_db w))"
    "?u 5 \<notin> out_id ` set (outbox (w_db w))"
    using fresh_ids_use [OF assms(2), of 2] fresh_ids_use [OF assms(2), of 4]
      fresh_ids_use [OF assms(2), of 5] by (simp_all add: used_ids_def)
  note sq = fresh_ids_seq [OF assms(2), of 3]
  obtain reserved where al: "find (\<lambda>p. pay_id p = pid) (payments (w_db w)) = Some p" "pay_tenant p = t"
    "pay_status p = ''succeeded''" "0 < sint (if amount = 0 then pay_amount p else amount)"
    "sint (if amount = 0 then pay_amount p else amount) \<le> sint (pay_amount p)"
    "scan_int64 (reserved_sum pid (w_db w)) = Some reserved"
    "sint (reserved + (if amount = 0 then pay_amount p else amount)) \<le> sint (pay_amount p)"
    using assms(5) by (rule refund_allowed_cases)
  have pid: "pid \<in> pay_id ` set (payments (w_db w))"
    using find_Some_iff_in [OF al(1)] by auto
  define a where "a = (if amount = 0 then pay_amount p else amount)"
  have "\<exists>r w'. refund_create L t pid k amount w = (Inr (r, True), w')"
    unfolding refund_create_def
    using assms(1,3,4,6,7) ids sq al pid unfolding a_def [symmetric]
    by (simp add: Let_def op_ok_apply exec_quiet query_quiet commit_quiet with_tx_quiet op_then_def
        sql_insert_refund_def sql_insert_ledger_def ledger_append_def audit_write_def
        insert_refund_settlement_def sql_insert_audit_def sql_insert_outbox_def
        valid_refund_key_def eval_nat_numeral not_le not_less a_def [symmetric])
  then obtain r w' where run: "refund_create L t pid k amount w = (Inr (r, True), w')" by blast
  from wp_Inr [OF refund_create_wp run] run show ?thesis by auto
qed


lemma ref_paid_refunds [simp]: "refunds (ref_paid_db st) = []" "pay_amount (sample_payment u st) = 250"
  "pay_currency (sample_payment u st) = ''EUR''"
  by (simp_all add: ref_paid_db_def ref_db_def empty_db_def sample_payment_def)

lemma ref_currency_facts:
  "to_upper (l_upper ref_lib) (trim_space ''EUR'') = ''EUR''"
  "pg_char3 ref_lib ''EUR'' = Some ''EUR''"
  by (code_simp, code_simp)

theorem refund_create_fresh_witness:
  "\<exists>r row w'. refund_create ref_lib 1 7 ''r1'' 100 (ref_world (ref_paid_db ''succeeded'') []) = (Inr (r, True), w') \<and>
     refund_accepted ref_lib 1 7 ''r1'' 100 row (ref_paid_db ''succeeded'') (w_db w') \<and> ref_id r = ref_id row"
proof -
  let ?w = "ref_world (ref_paid_db ''succeeded'') []"
  have a: "refund_amount 100 7 (w_db ?w) = 100" by (simp add: refund_amount_def)
  note a' = a [simplified]
  have "fresh_ids 6 ?w"
    by (rule ref_fresh)
      (simp_all add: ref_paid_db_def sample_payment_def ref_db_def sample_tenant_def empty_db_def used_ids_def)
  moreover have "valid_refund_key ''r1''" by code_simp
  moreover have "(1 :: uuid) \<in> ten_id ` set (tenants (w_db ?w))" by (simp add: ref_db_def sample_tenant_def)
  moreover have "refund_allowed 1 7 (refund_amount 100 7 (w_db ?w)) (sample_payment 7 ''succeeded'') (w_db ?w)"
    unfolding a by (simp add: refund_allowed_def reserved_sum_def scan_int64_def)
  moreover have "pg_char3 ref_lib (to_upper (l_upper ref_lib) (trim_space (pay_currency (sample_payment 7 ''succeeded'')))) = Some ''EUR''"
    by (simp add: ref_currency_facts)
  ultimately show ?thesis
    using refund_create_fresh [of ?w "''r1''" 1 7 100 "sample_payment 7 ''succeeded''" ref_lib "''EUR''"]
    by (simp add: a')
qed

text \<open>
  Whichever database calls fail, a refund request leaves the database as it was or with the
  complete effect of one accepted refund (refund, ledger event, audit record, outbox row), and
  a reply says created exactly when this call changed the database.
\<close>

theorem refund_create_atomic:
  assumes "refund_create L t pid k amount w = (r, w')"
  shows "(w_db w' = w_db w \<or>
      (\<exists>row. refund_accepted L t pid k (refund_amount amount pid (w_db w)) row (w_db w) (w_db w'))) \<and>
    (\<forall>x b. r = Inr (x, b) \<longrightarrow> (b \<longleftrightarrow> w_db w' \<noteq> w_db w))"
proof (cases r)
  case (Inl e)
  then show ?thesis using wp_Inl [OF refund_create_wp, of L t pid k amount w e w'] assms by simp
next
  case (Inr x)
  then obtain y b where r: "r = Inr (y, b)" by (cases x) simp
  note q = wp_Inr [OF refund_create_wp assms [unfolded r]]
  show ?thesis
  proof (cases b)
    case True
    with q obtain row where acc: "refund_accepted L t pid k (refund_amount amount pid (w_db w)) row (w_db w) (w_db w')"
      by auto
    from refund_accepted_refunds [OF acc] have "w_db w' \<noteq> w_db w" by (metis append_self_conv not_Cons_self2)
    with acc r True show ?thesis by blast
  next
    case False
    with q r show ?thesis by simp
  qed
qed

theorem refund_create_atomic_witness:
  "\<exists>r w'. refund_create ref_lib 1 7 ''r1'' 100 (ref_world (ref_paid_db ''succeeded'') [NoFault, NoFault, Fails]) = (r, w') \<and>
     (w_db w' = ref_paid_db ''succeeded'' \<or>
      (\<exists>row. refund_accepted ref_lib 1 7 ''r1'' (refund_amount 100 7 (ref_paid_db ''succeeded'')) row
         (ref_paid_db ''succeeded'') (w_db w')))"
  using refund_create_atomic [OF surjective_pairing, of ref_lib 1 7 "''r1''" 100
      "ref_world (ref_paid_db ''succeeded'') [NoFault, NoFault, Fails]"]
  by (metis prod.collapse ref_world_simps(4))

text \<open>
  C18: whichever calls fail, a refund request keeps every payment's pending and succeeded
  refunds within its amount, as long as the amounts are below 2 ^ 62 cents.
\<close>

theorem refund_create_within:
  assumes "refunds_within (w_db w)" and "distinct (map pay_id (payments (w_db w)))"
    and "refund_create L t pid k amount w = (r, w')"
  shows "refunds_within (w_db w')"
proof (cases r)
  case (Inl e)
  then show ?thesis
    using wp_Inl [OF refund_create_wp] assms refund_accepted_within by fastforce
next
  case (Inr x)
  then show ?thesis
    using wp_Inr [OF refund_create_wp] assms refund_accepted_within by (cases x) (fastforce split: if_splits)
qed

definition sample_refund :: "uuid \<Rightarrow> int64 \<Rightarrow> string \<Rightarrow> refund" where
  "sample_refund rid amt status = \<lparr>ref_id = rid, ref_tenant = 1, ref_payment = 7, ref_amount = amt,
     ref_currency = ''EUR'', ref_status = status, ref_key = ''r1'', ref_scope = scope_refund_create,
     ref_hash = refund_fingerprint ref_lib 7 amt, ref_created = 6, ref_updated = 6\<rparr>"

definition ref_refund_db :: "int64 \<Rightarrow> string \<Rightarrow> db" where
  "ref_refund_db amt status = (ref_paid_db ''succeeded'')\<lparr>refunds := [sample_refund 9 amt status]\<rparr>"

lemma sample_refund_simps [simp]:
  "refunds (ref_refund_db amt st) = [sample_refund 9 amt st]"
  "payments (ref_refund_db amt st) = [sample_payment 7 ''succeeded'']"
  "ledger (ref_refund_db amt st) = []" "tenants (ref_refund_db amt st) = tenants ref_db"
  "ref_idem (sample_refund u amt st) = (1, scope_refund_create, ''r1'')"
  "ref_id (sample_refund u amt st) = u" "ref_tenant (sample_refund u amt st) = 1"
  "ref_payment (sample_refund u amt st) = 7" "ref_amount (sample_refund u amt st) = amt"
  "ref_status (sample_refund u amt st) = st" "ref_hash (sample_refund u amt st) = refund_fingerprint ref_lib 7 amt"
  by (simp_all add: ref_refund_db_def sample_refund_def ref_idem_def)

theorem refund_create_within_witness:
  "refunds_within (ref_refund_db 100 ''pending'') \<and>
   refunds_within (w_db (snd (refund_create ref_lib 1 7 ''r2'' 0 (ref_world (ref_refund_db 100 ''pending'') []))))"
proof -
  let ?w = "ref_world (ref_refund_db 100 ''pending'') []"
  have "refunds_within (w_db ?w)" by (simp add: refunds_within_def reserved_sum_def counts_for_def)
  moreover have "distinct (map pay_id (payments (w_db ?w)))" by simp
  ultimately show ?thesis using refund_create_within [OF _ _ surjective_pairing, of ?w] by auto
qed

text \<open>
  C19: a request under a key already used that the balance still allows returns the stored refund,
  marked as not created, if its fingerprint is the same, and is refused with the mismatch error
  if it is not; it changes nothing either way.
\<close>

theorem refund_create_replay:
  assumes "quiet w" and "valid_refund_key k" and "distinct (map ref_idem (refunds (w_db w)))"
    and "row \<in> set (refunds (w_db w))" and "ref_idem row = (t, scope_refund_create, k)"
    and "refund_allowed t pid (refund_amount amount pid (w_db w)) p (w_db w)"
    and "pg_char3 L (to_upper (l_upper L) (trim_space (pay_currency p))) = Some c"
  shows "\<exists>w'. w_db w' = w_db w \<and> refund_create L t pid k amount w =
      ((if ref_hash row = refund_fingerprint L pid (refund_amount amount pid (w_db w))
        then Inr (created_refund t pid (refund_amount amount pid (w_db w))
              (to_upper (l_upper L) (trim_space (pay_currency p))) k (ref_hash row) row, False)
        else Inl ErrRefundIdempotencyMismatch), w')"
proof -
  have taken: "(t, scope_refund_create, k) \<in> ref_idem ` set (refunds (w_db w))"
    using assms(4,5) by (metis imageI)
  have sel: "sql_select_refund_by_key t scope_refund_create k (w_db w) = Some row"
    using find_distinct [OF assms(3,4)] assms(5) by (simp add: sql_select_refund_by_key_def)
  obtain reserved where al: "find (\<lambda>p. pay_id p = pid) (payments (w_db w)) = Some p" "pay_tenant p = t"
    "pay_status p = ''succeeded''" "0 < sint (if amount = 0 then pay_amount p else amount)"
    "sint (if amount = 0 then pay_amount p else amount) \<le> sint (pay_amount p)"
    "scan_int64 (reserved_sum pid (w_db w)) = Some reserved"
    "sint (reserved + (if amount = 0 then pay_amount p else amount)) \<le> sint (pay_amount p)"
    "refund_amount amount pid (w_db w) = (if amount = 0 then pay_amount p else amount)"
    using assms(6) by (rule refund_allowed_cases)
  define a where "a = (if amount = 0 then pay_amount p else amount)"
  show ?thesis
    unfolding refund_create_def al(8)
    using assms(1,2,7) taken sel al unfolding a_def [symmetric]
    by (simp add: Let_def op_ok_apply op_err_apply exec_quiet query_quiet commit_quiet with_tx_quiet op_then_def
        sql_insert_refund_def valid_refund_key_def not_le not_less a_def [symmetric])
qed

theorem refund_create_replay_witness:
  "(\<exists>r w'. refund_create ref_lib 1 7 ''r1'' 100 (ref_world (ref_refund_db 100 ''pending'') []) = (Inr (r, False), w') \<and>
      ref_id r = 9 \<and> w_db w' = ref_refund_db 100 ''pending'')"
proof -
  let ?w = "ref_world (ref_refund_db 100 ''pending'') []"
  have a: "refund_amount 100 7 (w_db ?w) = 100" by (simp add: refund_amount_def)
  note a' = a [simplified]
  have "valid_refund_key ''r1''" by code_simp
  moreover have "refund_allowed 1 7 (refund_amount 100 7 (w_db ?w)) (sample_payment 7 ''succeeded'') (w_db ?w)"
    unfolding a by (simp add: refund_allowed_def reserved_sum_def scan_int64_def counts_for_def)
  moreover have "pg_char3 ref_lib (to_upper (l_upper ref_lib) (trim_space (pay_currency (sample_payment 7 ''succeeded'')))) = Some ''EUR''"
    by (simp add: ref_currency_facts)
  ultimately show ?thesis
    using refund_create_replay [of ?w "''r1''" "sample_refund 9 100 ''pending''" 1 7 100 "sample_payment 7 ''succeeded''" ref_lib "''EUR''"]
    by (auto simp: a' created_refund_def)
qed

lemma reserved_sum_ge:
  assumes "row \<in> set (refunds d)" and "counts_for pid row"
    and "\<forall>r \<in> set (refunds d). 0 < sint (ref_amount r)"
  shows "sint (ref_amount row) \<le> reserved_sum pid d"
proof -
  have "sint (ref_amount row) \<in> set (map (\<lambda>r. sint (ref_amount r)) (filter (counts_for pid) (refunds d)))"
    using assms(1,2) by auto
  moreover have "x \<in> set xs \<Longrightarrow> (\<forall>y \<in> set xs. 0 < y) \<Longrightarrow> x \<le> sum_list xs" for x :: int and xs
  proof (induction xs)
    case Nil
    then show ?case by simp
  next
    case (Cons y ys)
    then have "0 \<le> sum_list ys" by (intro sum_list_nonneg) auto
    with Cons show ?case by auto
  qed
  ultimately show ?thesis using assms(3) unfolding reserved_sum_def by auto
qed

text \<open>
  C20: the balance check comes before the idempotency lookup: repeating, under the same key, the
  request that refunded a payment in full does not return that refund but is refused with the
  amount-exceeded error.
\<close>

theorem refund_full_replay_refused:
  assumes "quiet w" and "valid_refund_key k" and "refunds_within (w_db w)"
    and "find (\<lambda>p. pay_id p = pid) (payments (w_db w)) = Some p"
    and "pay_tenant p = t" and "pay_status p = ''succeeded''"
    and "row \<in> set (refunds (w_db w))" and "ref_idem row = (t, scope_refund_create, k)"
    and "counts_for pid row" and "ref_amount row = pay_amount p" and "amount = 0 \<or> amount = pay_amount p"
  shows "\<exists>w'. w_db w' = w_db w \<and> refund_create L t pid k amount w = (Inl ErrRefundAmountExceeded, w')"
proof -
  let ?A = "sint (pay_amount p)" and ?R = "word_of_int (sint (pay_amount p)) :: int64"
  have p: "p \<in> set (payments (w_db w))" "pay_id p = pid" using find_Some_iff_in [OF assms(4)] by auto
  have A: "0 < ?A" "?A < 2 ^ 62" using assms(3,7,10) p by (auto simp: refunds_within_def)
  have "reserved_sum pid (w_db w) = ?A"
    using reserved_sum_ge [OF assms(7,9)] assms(3,10) p by (auto simp: refunds_within_def intro: antisym)
  then have scan: "scan_int64 (reserved_sum pid (w_db w)) = Some (pay_amount p)"
    using A by (simp add: scan_int64_def)
  have twice: "sint (pay_amount p + pay_amount p) = ?A + ?A"
    using A by (intro sint64_add_exact) simp_all
  show ?thesis
    unfolding refund_create_def
    using assms(1,2,4,5,6,11) A scan twice
    by (auto simp: Let_def op_err_apply query_quiet with_tx_quiet op_then_def valid_refund_key_def)
qed

theorem refund_full_replay_refused_witness:
  "\<exists>w'. w_db w' = ref_refund_db 250 ''succeeded'' \<and>
     refund_create ref_lib 1 7 ''r1'' 0 (ref_world (ref_refund_db 250 ''succeeded'') []) =
     (Inl ErrRefundAmountExceeded, w')"
proof -
  let ?w = "ref_world (ref_refund_db 250 ''succeeded'') []"
  have "valid_refund_key ''r1''" by code_simp
  moreover have "refunds_within (w_db ?w)" by (simp add: refunds_within_def reserved_sum_def counts_for_def)
  moreover have "counts_for 7 (sample_refund 9 250 ''succeeded'')" by (simp add: counts_for_def)
  ultimately show ?thesis
    using refund_full_replay_refused [of ?w "''r1''" 7 "sample_payment 7 ''succeeded''" 1
      "sample_refund 9 250 ''succeeded''" 0 ref_lib] by simp
qed

text \<open>A payment of the largest amount, refunded in full.\<close>

definition huge_db :: db where
  "huge_db = (ref_paid_db ''succeeded'')\<lparr>
     payments := [(sample_payment 7 ''succeeded'')\<lparr>pay_amount := 2 ^ 63 - 1\<rparr>],
     refunds := [sample_refund 9 (2 ^ 63 - 1) ''succeeded'']\<rparr>"

lemma huge_db_simps [simp]:
  "payments huge_db = [(sample_payment 7 ''succeeded'')\<lparr>pay_amount := 2 ^ 63 - 1\<rparr>]"
  "refunds huge_db = [sample_refund 9 (2 ^ 63 - 1) ''succeeded'']"
  "tenants huge_db = tenants ref_db" "ledger huge_db = []" "audits huge_db = []" "outbox huge_db = []"
  by (simp_all add: huge_db_def ref_paid_db_def ref_db_def empty_db_def)


lemma refund_get_wp:
  "wp (refund_get t rid) (\<lambda>r v. r \<in> set (refunds (w_db w)) \<and> ref_id r = rid \<and> ref_tenant r = t \<and> w_db v = w_db w)
     (\<lambda>_ v. w_db v = w_db w) w"
  unfolding refund_get_def
  by (intro wp_rules; (simp; fail)?) (auto dest: find_Some_iff_in)

text \<open>
  No tenant can refund a payment that is not its own, and trying it changes nothing, whichever
  calls fail.
\<close>

theorem refund_tenant_isolation:
  assumes "\<forall>p. find (\<lambda>p. pay_id p = pid) (payments (w_db w)) = Some p \<longrightarrow> pay_tenant p \<noteq> t"
  shows "wp (refund_create L t pid k amount) (\<lambda>_ _. False) (\<lambda>_ v. w_db v = w_db w) w"
  unfolding refund_create_def Let_def
  using assms by (intro wp_rules; (simp; fail)?)

theorem refund_tenant_isolation_witness:
  "wp (refund_create ref_lib 2 7 ''r1'' 100) (\<lambda>_ _. False) (\<lambda>_ v. w_db v = ref_paid_db ''succeeded'')
     (ref_world (ref_paid_db ''succeeded'') [])"
  using refund_tenant_isolation [where w = "ref_world (ref_paid_db ''succeeded'') []" and pid = 7 and t = 2]
  by simp

section \<open>Settlement happens once\<close>

definition refund_settled :: "uuid \<Rightarrow> db \<Rightarrow> bool" where
  "refund_settled rid d \<longleftrightarrow>
     (case sql_refund_with_payment rid d of None \<Rightarrow> True | Some (r, p) \<Rightarrow> ref_status r \<noteq> ''pending'')"

definition refund_settled_once :: "lib \<Rightarrow> uuid \<Rightarrow> db \<Rightarrow> db \<Rightarrow> bool" where
  "refund_settled_once L rid d d' \<longleftrightarrow>
     (\<exists>r p now evs. sql_refund_with_payment rid d = Some (r, p) \<and> ref_status r = ''pending'' \<and>
        pay_status p = ''succeeded'' \<and>
        event_added (ref_tenant r) (ref_payment r, refund_dedupe L rid '':succeeded'')
          ledger_refund_succeeded (ledger d) evs \<and>
        d' = d\<lparr>ledger := ledger d @ evs,
               refunds := update_where (\<lambda>r. ref_id r = rid \<and> ref_status r = ''pending'')
                 (\<lambda>r. r\<lparr>ref_status := ''succeeded'', ref_updated := now\<rparr>) (refunds d)\<rparr>)"

lemma refund_settled_onceI:
  assumes "sql_refund_with_payment rid d = Some (r, p)" and "ref_status r = ''pending''"
    and "pay_status p = ''succeeded''"
    and "sql_insert_ledger (ref_tenant r) (ref_payment r) (refund_dedupe L rid '':succeeded'')
           ledger_refund_succeeded j g d = Inr (x, d1)"
    and "sql_settle_refund rid g' d1 = Inr (u, d2)"
  shows "refund_settled_once L rid d d2"
proof -
  obtain evs where "event_added (ref_tenant r) (ref_payment r, refund_dedupe L rid '':succeeded'')
      ledger_refund_succeeded (ledger d) evs" "d1 = d\<lparr>ledger := ledger d @ evs\<rparr>"
    using sql_insert_ledger_added [OF assms(4)] by blast
  with assms show ?thesis
    unfolding refund_settled_once_def
    by (intro exI [of _ r] exI [of _ p] exI [of _ "g_now g'"] exI [of _ evs]) (auto simp: sql_settle_refund_def)
qed

lemma refund_settled_once_settled:
  assumes "refund_settled_once L rid d d'"
  shows "refund_settled rid d'"
proof -
  let ?P = "\<lambda>r :: refund. ref_id r = rid \<and> ref_status r = ''pending''"
  obtain r p now where j: "sql_refund_with_payment rid d = Some (r, p)" and
    rs: "refunds d' = update_where ?P (\<lambda>r. r\<lparr>ref_status := ''succeeded'', ref_updated := now\<rparr>) (refunds d)"
    and ps: "payments d' = payments d"
    using assms unfolding refund_settled_once_def by auto
  have "find (\<lambda>r. ref_id r = rid) (refunds d') =
      map_option (\<lambda>r. if ?P r then r\<lparr>ref_status := ''succeeded'', ref_updated := now\<rparr> else r)
        (find (\<lambda>r. ref_id r = rid) (refunds d))"
    unfolding rs by (rule find_update_where) simp
  then show ?thesis
    by (auto simp: refund_settled_def sql_refund_with_payment_def ps split: option.splits dest: find_Some_iff_in)
qed

lemma refund_settle_tx_wp:
  "wp (refund_settle_tx L rid)
     (\<lambda>_ v. w_db v = w_db w \<and>
        (refund_settled_once L rid (w_tx w) (w_tx v) \<or> refund_settled rid (w_tx w) \<and> w_tx v = w_tx w))
     (\<lambda>_ v. w_db v = w_db w) w"
  unfolding refund_settle_tx_def
  by (intro wp_rules; (simp; fail)?)
    (auto intro: refund_settled_onceI simp: refund_settled_def)

interpretation ref_settle: settlement "refund_settle_tx L" refund_settled
proof
  show "wp (refund_settle_tx L i) (\<lambda>_ v. w_db v = w_db w \<and> refund_settled i (w_tx v))
      (\<lambda>_ v. w_db v = w_db w) w" for i w
    by (rule wp_mono [OF refund_settle_tx_wp]) (auto dest: refund_settled_once_settled)
  show "wp (refund_settle_tx L i) (\<lambda>_ v. w_db v = w_db w \<and> w_tx v = w_tx w) (\<lambda>_ v. w_db v = w_db w) w"
    if "refund_settled i (w_tx w)" for i w
    unfolding refund_settle_tx_def
    using that by (intro wp_rules; (simp; fail)?) (auto simp: refund_settled_def)
qed

text \<open>
  C22: whichever calls fail, settling a refund leaves the database as it was or moves exactly this
  refund from pending to succeeded together with its one ledger event; when it reports success
  nothing is left to settle.
\<close>

theorem refund_settle_atomic:
  "wp (refund_settle L rid)
     (\<lambda>_ v. refund_settled rid (w_db v) \<and> (w_db v = w_db w \<or> refund_settled_once L rid (w_db w) (w_db v)))
     (\<lambda>_ v. w_db v = w_db w \<or> refund_settled_once L rid (w_db w) (w_db v)) w"
  unfolding refund_settle_def
  by (rule wp_with_txI, simp, rule wp_thenI, rule wp_mono [OF refund_settle_tx_wp], rule wp_commitI)
    (auto dest: refund_settled_once_settled)

text \<open>
  After one successful settlement of a refund, no redelivery of the job changes the database,
  whether it succeeds or fails.
\<close>

theorem refund_settle_redelivery:
  assumes "refund_settle L rid w = (Inr (), w1)" and "w_db w2 = w_db w1"
    and "refund_settle L rid w2 = (r, w3)"
  shows "w_db w3 = w_db w1"
  using assms unfolding refund_settle_def by (rule ref_settle.redelivery)

theorem refund_settle_redelivery_witness:
  "\<exists>w1 w3. refund_settle ref_lib 9 (ref_world (ref_refund_db 100 ''pending'') []) = (Inr (), w1) \<and>
     map ref_status (refunds (w_db w1)) = [''succeeded''] \<and> w_db w3 = w_db w1 \<and>
     refund_settle ref_lib 9 w1 = (Inr (), w3)"
proof -
  let ?w = "ref_world (ref_refund_db 100 ''pending'') []"
  have run: "fst (refund_settle ref_lib 9 ?w) = Inr () \<and>
      map ref_status (refunds (w_db (snd (refund_settle ref_lib 9 ?w)))) = [''succeeded''] \<and>
      fst (refund_settle ref_lib 9 (snd (refund_settle ref_lib 9 ?w))) = Inr ()"
    by (simp add: refund_settle_def refund_settle_tx_def Let_def world_eval ledger_eval ref_world_def
        sql_refund_with_payment_def sql_settle_refund_def update_where_def ref_db_def sample_tenant_def)
  then have "w_db (snd (refund_settle ref_lib 9 (snd (refund_settle ref_lib 9 ?w)))) = w_db (snd (refund_settle ref_lib 9 ?w))"
    by (intro refund_settle_redelivery [of ref_lib 9 ?w, OF _ refl]) (simp_all add: prod_eq_iff)
  with run show ?thesis by (metis prod.collapse)
qed

end
