(* ===== verification/Queue.thy ===== *)
theory Queue
  imports Settlement
begin

text \<open>
  \<open>internal/queue\<close>: the job brokers. \<open>w\_queue\<close> is the broker's state, per list (Redis)
  or queue (Service Bus) the waiting messages, the newest first. A message is gone once
  \<open>BRPOP\<close> has answered, or once \<open>CompleteMessage\<close> has; both brokers hand a job over
  before the worker has done it.

  Locale \<open>broker\<close> states what the publishers and the worker rely on; it is interpreted
  on the two brokers of the code.
\<close>

section \<open>Job kinds\<close>

datatype job_kind = SettlementJob | WebhookJob | RefundJob

fun job_rank :: "job_kind \<Rightarrow> nat" where
  "job_rank SettlementJob = 0"
| "job_rank WebhookJob = 1"
| "job_rank RefundJob = 2"

lemma job_rank_inj [simp]: "job_rank k = job_rank k' \<longleftrightarrow> k = k'"
  by (cases k; cases k') simp_all

text \<open>The order in which the brokers look at the queues.\<close>

instantiation job_kind :: linorder
begin

definition less_eq_job_kind :: "job_kind \<Rightarrow> job_kind \<Rightarrow> bool" where
  "less_eq_job_kind k k' \<longleftrightarrow> job_rank k \<le> job_rank k'"

definition less_job_kind :: "job_kind \<Rightarrow> job_kind \<Rightarrow> bool" where
  "less_job_kind k k' \<longleftrightarrow> job_rank k < job_rank k'"

instance
  by standard (auto simp: less_eq_job_kind_def less_job_kind_def intro: antisym)

end

definition default_settlement_queue_key :: string where
  "default_settlement_queue_key = ''payflow:settlement_jobs''"

definition default_webhook_queue_key :: string where
  "default_webhook_queue_key = ''payflow:webhook_jobs''"

definition default_refund_queue_key :: string where
  "default_refund_queue_key = ''payflow:refund_jobs''"

lemmas queue_keys = default_settlement_queue_key_def default_webhook_queue_key_def
  default_refund_queue_key_def

section \<open>Redis\<close>

record redis =
  red_key :: string

definition new_redis :: redis where
  "new_redis = \<lparr>red_key = []\<rparr>"

definition redis_settlement_key :: "redis \<Rightarrow> string" where
  "redis_settlement_key r = (if red_key r \<noteq> [] then red_key r else default_settlement_queue_key)"

definition set_queue :: "string \<Rightarrow> string list \<Rightarrow> world \<Rightarrow> world" where
  "set_queue key q w = w\<lparr>w_queue := (w_queue w)(key := q)\<rparr>"

text \<open>\<open>LPUSH\<close> and \<open>BRPOP\<close>: the first list that is not empty gives its oldest element.\<close>

definition redis_lpush :: "string \<Rightarrow> string \<Rightarrow> unit action" where
  "redis_lpush key v w =
     (case cur_fault w of
        Fails \<Rightarrow> (Inl ErrBroker, tick w)
      | NoFault \<Rightarrow> (Inr (), set_queue key (v # w_queue w key) (tick w))
      | LostAck \<Rightarrow> (Inl ErrBroker, set_queue key (v # w_queue w key) (tick w)))"

definition redis_brpop :: "time \<Rightarrow> string list \<Rightarrow> string list option action" where
  "redis_brpop timeout keys w =
     (if cur_fault w = Fails then (Inl ErrBroker, tick w)
      else (case find (\<lambda>k. w_queue w k \<noteq> []) keys of
              None \<Rightarrow> (if cur_fault w = LostAck then Inl ErrBroker else Inr None,
                       (tick w)\<lparr>w_now := w_now w + timeout\<rparr>)
            | Some k \<Rightarrow> (if cur_fault w = LostAck then Inl ErrBroker else Inr (Some [k, last (w_queue w k)]),
                       set_queue k (butlast (w_queue w k)) (tick w))))"

definition redis_publish_payment_settlement :: "lib \<Rightarrow> redis \<Rightarrow> uuid \<Rightarrow> unit action" where
  "redis_publish_payment_settlement L r pid = redis_lpush (redis_settlement_key r) (l_uuid_string L pid)"

definition redis_publish_webhook_delivery :: "lib \<Rightarrow> uuid \<Rightarrow> unit action" where
  "redis_publish_webhook_delivery L did = redis_lpush default_webhook_queue_key (l_uuid_string L did)"

definition redis_publish_refund_settlement :: "lib \<Rightarrow> uuid \<Rightarrow> unit action" where
  "redis_publish_refund_settlement L rid = redis_lpush default_refund_queue_key (l_uuid_string L rid)"

definition redis_br_pop_job :: "lib \<Rightarrow> redis \<Rightarrow> time \<Rightarrow> (string \<times> uuid) action" where
  "redis_br_pop_job L r timeout =
     op_then (redis_brpop timeout
         [redis_settlement_key r, default_webhook_queue_key, default_refund_queue_key])
       (\<lambda>res. case res of
          None \<Rightarrow> op_err ErrNoJob
        | Some (k # v # _) \<Rightarrow>
            (case l_uuid_parse L v of None \<Rightarrow> op_err (ErrUUID v) | Some u \<Rightarrow> op_ok (k, u))
        | Some _ \<Rightarrow> op_err ErrBroker)"

section \<open>Azure Service Bus\<close>

definition azure_queue_settlement :: string where "azure_queue_settlement = ''settlement''"
definition azure_queue_webhook :: string where "azure_queue_webhook = ''webhook''"
definition azure_queue_refund :: string where "azure_queue_refund = ''refund''"

lemmas azure_queues = azure_queue_settlement_def azure_queue_webhook_def azure_queue_refund_def

text \<open>
  The client library's calls in peek-lock mode, one worker at a time: a received message stays
  in its queue until it is completed; an abandoned one, or one whose completion failed, is
  delivered again. A receive that finds nothing ends with its context's deadline.
\<close>

definition bus_send :: "string \<Rightarrow> string \<Rightarrow> unit action" where
  "bus_send q body w =
     (case cur_fault w of
        Fails \<Rightarrow> (Inl ErrBroker, tick w)
      | NoFault \<Rightarrow> (Inr (), set_queue q (body # w_queue w q) (tick w))
      | LostAck \<Rightarrow> (Inl ErrBroker, set_queue q (body # w_queue w q) (tick w)))"

definition bus_receive :: "string \<Rightarrow> time \<Rightarrow> string list action" where
  "bus_receive q per_try w =
     (case cur_fault w of
        Fails \<Rightarrow> (Inl ErrBroker, tick w)
      | LostAck \<Rightarrow> (Inl ErrContext, (tick w)\<lparr>w_now := w_now w + per_try\<rparr>)
      | NoFault \<Rightarrow>
          (if w_queue w q = [] then (Inl ErrContext, (tick w)\<lparr>w_now := w_now w + per_try\<rparr>)
           else (Inr [last (w_queue w q)], tick w)))"

definition bus_complete :: "string \<Rightarrow> unit action" where
  "bus_complete q w =
     (case cur_fault w of
        Fails \<Rightarrow> (Inl ErrBroker, tick w)
      | NoFault \<Rightarrow> (Inr (), set_queue q (butlast (w_queue w q)) (tick w))
      | LostAck \<Rightarrow> (Inl ErrBroker, set_queue q (butlast (w_queue w q)) (tick w)))"

definition bus_abandon :: "string \<Rightarrow> unit action" where
  "bus_abandon q w = (if cur_fault w = NoFault then Inr () else Inl ErrBroker, tick w)"

definition bus_publish_payment_settlement :: "lib \<Rightarrow> uuid \<Rightarrow> unit action" where
  "bus_publish_payment_settlement L pid = bus_send azure_queue_settlement (l_uuid_string L pid)"

definition bus_publish_webhook_delivery :: "lib \<Rightarrow> uuid \<Rightarrow> unit action" where
  "bus_publish_webhook_delivery L did = bus_send azure_queue_webhook (l_uuid_string L did)"

definition bus_publish_refund_settlement :: "lib \<Rightarrow> uuid \<Rightarrow> unit action" where
  "bus_publish_refund_settlement L rid = bus_send azure_queue_refund (l_uuid_string L rid)"

text \<open>The receivers and the keys of \<open>BRPopJob\<close>, and its inner loop over them.\<close>

definition bus_receivers :: "string list" where
  "bus_receivers = [azure_queue_settlement, azure_queue_webhook, azure_queue_refund]"

definition bus_keys :: "string list" where
  "bus_keys = [default_settlement_queue_key, default_webhook_queue_key, default_refund_queue_key]"

fun bus_scan :: "lib \<Rightarrow> time \<Rightarrow> nat list \<Rightarrow> (string \<times> uuid) option action" where
  "bus_scan L per_try [] = op_ok None"
| "bus_scan L per_try (idx # rest) =
     op_try (bus_receive (bus_receivers ! idx) per_try) (\<lambda>res.
     case res of
       Inl e \<Rightarrow> if e = ErrContext then bus_scan L per_try rest else op_err e
     | Inr [] \<Rightarrow> bus_scan L per_try rest
     | Inr (body # _) \<Rightarrow>
         (case l_uuid_parse L body of
            None \<Rightarrow> op_try (bus_abandon (bus_receivers ! idx)) (\<lambda>_. op_err (ErrUUID body))
          | Some u \<Rightarrow> op_then (bus_complete (bus_receivers ! idx)) (\<lambda>_. op_ok (Some (bus_keys ! idx, u)))))"

lemma bus_receive_now: "bus_receive q t w = (r, v) \<Longrightarrow> 0 \<le> t \<Longrightarrow> w_now w \<le> w_now v \<and> w_now v \<le> w_now w + t"
  by (auto simp: bus_receive_def split: fault.splits if_splits)

lemma bus_complete_now: "bus_complete q w = (r, v) \<Longrightarrow> w_now v = w_now w"
  by (auto simp: bus_complete_def set_queue_def split: fault.splits)

lemma bus_abandon_now: "bus_abandon q w = (r, v) \<Longrightarrow> w_now v = w_now w"
  by (auto simp: bus_abandon_def)

text \<open>A pass over \<open>n\<close> receivers takes at most \<open>n\<close> tries.\<close>

lemma bus_scan_now:
  "bus_scan L t is w = (r, v) \<Longrightarrow> 0 \<le> t \<Longrightarrow> w_now w \<le> w_now v \<and> w_now v \<le> w_now w + int (length is) * t"
proof (induction "is" arbitrary: w)
  case Nil
  then show ?case by (simp add: op_ok_def)
next
  case (Cons idx rest)
  obtain res v1 where recv: "bus_receive (bus_receivers ! idx) t w = (res, v1)"
    by (cases "bus_receive (bus_receivers ! idx) t w")
  note b = bus_receive_now [OF recv Cons.prems(2)]
  have later: "?case" if "bus_scan L t rest v1 = (r, v)"
    using Cons.IH [OF that Cons.prems(2)] b by (simp add: algebra_simps)
  have same: "?case" if "w_now v = w_now v1"
  proof -
    have "0 \<le> int (length rest) * t" using Cons.prems(2) by simp
    then have "w_now v \<le> w_now w + t + int (length rest) * t" using b that by linarith
    then show ?thesis using b that by (simp add: algebra_simps)
  qed
  have "bus_scan L t rest v1 = (r, v) \<or> w_now v = w_now v1"
    using Cons.prems(1) recv
    by (cases res)
      (auto simp: op_try_def op_then_def op_err_def op_ok_def split: if_splits list.splits option.splits
        prod.splits sum.splits dest!: bus_complete_now bus_abandon_now)
  with later same show ?case by blast
qed


text \<open>
  The outer loop. Each round sleeps 15 ms, so it ends at the deadline.
\<close>

function bus_poll :: "lib \<Rightarrow> time \<Rightarrow> nat \<Rightarrow> world \<Rightarrow> (err + string \<times> uuid) \<times> world" where
  "bus_poll L deadline start w =
     (if w_now w < deadline then
        (case bus_scan L (min 400000 (deadline - w_now w))
                [(start + 0) mod 3, (start + 1) mod 3, (start + 2) mod 3] w of
           (res, v) \<Rightarrow>
             (case res of
                Inl e \<Rightarrow> (Inl e, v)
              | Inr (Some job) \<Rightarrow> (Inr job, v)
              | Inr None \<Rightarrow> bus_poll L deadline ((start + 1) mod 3) (v\<lparr>w_now := w_now v + 15000\<rparr>)))
      else (Inl ErrNoJob, w))"
  by pat_completeness auto

termination
  by (relation "measure (\<lambda>(L, deadline, start, w). nat (deadline - w_now w))")
    (auto simp del: bus_scan.simps dest!: bus_scan_now [OF sym])

declare bus_poll.simps [simp del]

definition bus_br_pop_job :: "lib \<Rightarrow> time \<Rightarrow> (string \<times> uuid) action" where
  "bus_br_pop_job L timeout w = bus_poll L (w_now w + timeout) 0 w"

section \<open>The interfaces Publisher and JobQueue\<close>

datatype job_queue = Redis redis | AzureServiceBus

datatype publisher = Broker job_queue | NoOpPublisher

fun settlement_key :: "job_queue \<Rightarrow> string" where
  "settlement_key (Redis r) = redis_settlement_key r"
| "settlement_key AzureServiceBus = default_settlement_queue_key"

fun publish_payment_settlement :: "lib \<Rightarrow> publisher \<Rightarrow> uuid \<Rightarrow> unit action" where
  "publish_payment_settlement L NoOpPublisher pid = op_ok ()"
| "publish_payment_settlement L (Broker (Redis r)) pid = redis_publish_payment_settlement L r pid"
| "publish_payment_settlement L (Broker AzureServiceBus) pid = bus_publish_payment_settlement L pid"

fun publish_webhook_delivery :: "lib \<Rightarrow> publisher \<Rightarrow> uuid \<Rightarrow> unit action" where
  "publish_webhook_delivery L NoOpPublisher did = op_ok ()"
| "publish_webhook_delivery L (Broker (Redis r)) did = redis_publish_webhook_delivery L did"
| "publish_webhook_delivery L (Broker AzureServiceBus) did = bus_publish_webhook_delivery L did"

fun publish_refund_settlement :: "lib \<Rightarrow> publisher \<Rightarrow> uuid \<Rightarrow> unit action" where
  "publish_refund_settlement L NoOpPublisher rid = op_ok ()"
| "publish_refund_settlement L (Broker (Redis r)) rid = redis_publish_refund_settlement L rid"
| "publish_refund_settlement L (Broker AzureServiceBus) rid = bus_publish_refund_settlement L rid"

fun br_pop_job :: "lib \<Rightarrow> job_queue \<Rightarrow> time \<Rightarrow> (string \<times> uuid) action" where
  "br_pop_job L (Redis r) timeout = redis_br_pop_job L r timeout"
| "br_pop_job L AzureServiceBus timeout = bus_br_pop_job L timeout"

text \<open>The publishing method of each kind, and the key by which a popped job names its kind.\<close>

fun publish_job :: "lib \<Rightarrow> job_queue \<Rightarrow> job_kind \<Rightarrow> uuid \<Rightarrow> unit action" where
  "publish_job L q SettlementJob = publish_payment_settlement L (Broker q)"
| "publish_job L q WebhookJob = publish_webhook_delivery L (Broker q)"
| "publish_job L q RefundJob = publish_refund_settlement L (Broker q)"

fun job_key :: "job_queue \<Rightarrow> job_kind \<Rightarrow> string" where
  "job_key q SettlementJob = settlement_key q"
| "job_key q WebhookJob = default_webhook_queue_key"
| "job_key q RefundJob = default_refund_queue_key"

fun bus_queue :: "job_kind \<Rightarrow> string" where
  "bus_queue SettlementJob = azure_queue_settlement"
| "bus_queue WebhookJob = azure_queue_webhook"
| "bus_queue RefundJob = azure_queue_refund"

text \<open>The waiting jobs of a kind, the oldest first.\<close>

fun waiting :: "job_queue \<Rightarrow> world \<Rightarrow> job_kind \<Rightarrow> string list" where
  "waiting (Redis r) w k = rev (w_queue w (job_key (Redis r) k))"
| "waiting AzureServiceBus w k = rev (w_queue w (bus_queue k))"

section \<open>What a broker promises\<close>

fun publish_all :: "(uuid \<Rightarrow> unit action) \<Rightarrow> uuid list \<Rightarrow> unit action" where
  "publish_all p [] = op_ok ()"
| "publish_all p (u # us) = op_then (p u) (\<lambda>_. publish_all p us)"

fun pop_times :: "nat \<Rightarrow> 'a action \<Rightarrow> 'a list action" where
  "pop_times 0 pop = op_ok []"
| "pop_times (Suc n) pop = op_then pop (\<lambda>x. op_then (pop_times n pop) (\<lambda>xs. op_ok (x # xs)))"

text \<open>
  Publishing adds a job at the end of its queue; a publication that fails may have done so.
  Popping takes the first job of one queue; a pop that fails may have taken it, and the job is
  lost. Without failures a publication succeeds, and a pop returns the oldest job of the first
  queue that has one.
\<close>

definition takes_one :: "(world \<Rightarrow> job_kind \<Rightarrow> string list) \<Rightarrow> world \<Rightarrow> job_kind \<Rightarrow> string \<Rightarrow> world \<Rightarrow> bool" where
  "takes_one jobs w k s v \<longleftrightarrow> (\<exists>rest. jobs w k = s # rest \<and> jobs v = (jobs w)(k := rest))"

definition hands_over ::
  "lib \<Rightarrow> (job_kind \<Rightarrow> string) \<Rightarrow> (world \<Rightarrow> job_kind \<Rightarrow> string list) \<Rightarrow> world \<Rightarrow> string \<times> uuid \<Rightarrow> world \<Rightarrow> bool" where
  "hands_over L key_of jobs w job v \<longleftrightarrow> w_db v = w_db w \<and>
     (\<exists>k s. fst job = key_of k \<and> l_uuid_parse L s = Some (snd job) \<and> takes_one jobs w k s v)"

definition may_lose :: "(world \<Rightarrow> job_kind \<Rightarrow> string list) \<Rightarrow> world \<Rightarrow> world \<Rightarrow> bool" where
  "may_lose jobs w v \<longleftrightarrow> w_db v = w_db w \<and> (jobs v = jobs w \<or> (\<exists>k s. takes_one jobs w k s v))"

lemma hands_overI:
  "w_db v = w_db w \<Longrightarrow> takes_one jobs w k s v \<Longrightarrow> l_uuid_parse L s = Some u \<Longrightarrow>
   hands_over L key_of jobs w (key_of k, u) v"
  by (auto simp: hands_over_def)

lemma may_loseI:
  "w_db v = w_db w \<Longrightarrow> jobs v = jobs w \<Longrightarrow> may_lose jobs w v"
  "w_db v = w_db w \<Longrightarrow> takes_one jobs w k s v \<Longrightarrow> may_lose jobs w v"
  by (auto simp: may_lose_def)

lemma hands_over_cong:
  "w_db w' = w_db w \<Longrightarrow> jobs w' = jobs w \<Longrightarrow> hands_over L key_of jobs w' = hands_over L key_of jobs w"
  "w_db w' = w_db w \<Longrightarrow> jobs w' = jobs w \<Longrightarrow> may_lose jobs w' = may_lose jobs w"
  by (auto simp: hands_over_def may_lose_def takes_one_def fun_eq_iff)

locale broker =
  fixes L :: lib
    and publish :: "job_kind \<Rightarrow> uuid \<Rightarrow> unit action"
    and pop :: "(string \<times> uuid) action"
    and key_of :: "job_kind \<Rightarrow> string"
    and jobs :: "world \<Rightarrow> job_kind \<Rightarrow> string list"
  assumes publish_adds: "wp (publish k u)
      (\<lambda>_ v. w_db v = w_db w \<and> jobs v = (jobs w)(k := jobs w k @ [l_uuid_string L u]))
      (\<lambda>_ v. w_db v = w_db w \<and> (jobs v = jobs w \<or> jobs v = (jobs w)(k := jobs w k @ [l_uuid_string L u]))) w"
    and publish_quiet: "quiet w \<Longrightarrow> \<exists>v. publish k u w = (Inr (), v) \<and> quiet v"
    and pop_takes: "wp pop (hands_over L key_of jobs w) (\<lambda>_. may_lose jobs w) w"
    and pop_first: "quiet w \<Longrightarrow> jobs w k = s # rest \<Longrightarrow> (\<And>k'. k' < k \<Longrightarrow> jobs w k' = []) \<Longrightarrow>
      l_uuid_parse L s = Some u \<Longrightarrow> \<exists>v. pop w = (Inr (key_of k, u), v) \<and> quiet v"
    and key_of_inj: "key_of k = key_of k' \<Longrightarrow> k = k'"
begin

lemma pop_first_takes:
  assumes "quiet w" and "jobs w k = s # rest" and "\<And>k'. k' < k \<Longrightarrow> jobs w k' = []"
    and "l_uuid_parse L s = Some u"
  shows "\<exists>v. pop w = (Inr (key_of k, u), v) \<and> quiet v \<and> jobs v = (jobs w)(k := rest) \<and> w_db v = w_db w"
proof -
  obtain v where v: "pop w = (Inr (key_of k, u), v)" "quiet v"
    using pop_first [OF assms(1,2,3,4)] by blast
  from wp_Inr [OF pop_takes v(1)] assms(2) v show ?thesis
    by (auto simp: hands_over_def takes_one_def dest!: key_of_inj)
qed

lemma publish_all_quiet:
  assumes "quiet w"
  shows "\<exists>v. publish_all (publish k) us w = (Inr (), v) \<and> quiet v \<and>
    jobs v = (jobs w)(k := jobs w k @ map (l_uuid_string L) us) \<and> w_db v = w_db w"
  using assms
proof (induction us arbitrary: w)
  case Nil
  then show ?case by (simp add: op_ok_def)
next
  case (Cons u us)
  obtain v where v: "publish k u w = (Inr (), v)" "quiet v"
    using publish_quiet [OF Cons.prems] by blast
  have j: "jobs v = (jobs w)(k := jobs w k @ [l_uuid_string L u])" "w_db v = w_db w"
    using wp_Inr [OF publish_adds v(1)] by simp_all
  obtain x where x: "publish_all (publish k) us v = (Inr (), x)" "quiet x"
    "jobs x = (jobs v)(k := jobs v k @ map (l_uuid_string L) us)" "w_db x = w_db v"
    using Cons.IH [OF v(2)] by blast
  have "jobs x = (jobs w)(k := jobs w k @ map (l_uuid_string L) (u # us))"
    unfolding x(3) j(1) by simp
  with x j v(1) show ?case by (auto simp: op_then_def)
qed

lemma pop_all_quiet:
  assumes "uuid_roundtrip L" and "quiet w" and "jobs w = (\<lambda>_. [])(k := map (l_uuid_string L) us)"
  shows "\<exists>v. pop_times (length us) pop w = (Inr (map (Pair (key_of k)) us), v) \<and> quiet v \<and>
    jobs v = (\<lambda>_. []) \<and> w_db v = w_db w"
  using assms(2,3)
proof (induction us arbitrary: w)
  case Nil
  then show ?case by (simp add: op_ok_def fun_upd_idem)
next
  case (Cons u us)
  have w: "jobs w k = l_uuid_string L u # map (l_uuid_string L) us" "\<And>k'. k' < k \<Longrightarrow> jobs w k' = []"
    by (simp_all add: Cons.prems(2))
  obtain v where v: "pop w = (Inr (key_of k, u), v)" "quiet v"
    "jobs v = (jobs w)(k := map (l_uuid_string L) us)" "w_db v = w_db w"
    using pop_first_takes [OF Cons.prems(1) w uuid_roundtripD [OF assms(1)]] by blast
  have "jobs v = (\<lambda>_. [])(k := map (l_uuid_string L) us)"
    unfolding v(3) Cons.prems(2) by simp
  from Cons.IH [OF v(2) this] v(1,4) show ?case by (auto simp: op_then_def op_ok_def)
qed

text \<open>Jobs of one kind come out as they went in, each once.\<close>

lemma fifo:
  assumes "uuid_roundtrip L" and "quiet w" and "jobs w = (\<lambda>_. [])"
  shows "\<exists>v. op_then (publish_all (publish k) us) (\<lambda>_. pop_times (length us) pop) w =
      (Inr (map (Pair (key_of k)) us), v) \<and> quiet v \<and> jobs v = (\<lambda>_. []) \<and> w_db v = w_db w"
proof -
  obtain v where v: "publish_all (publish k) us w = (Inr (), v)" "quiet v"
    "jobs v = (\<lambda>_. [])(k := map (l_uuid_string L) us)" "w_db v = w_db w"
    using publish_all_quiet [OF assms(2), of k us] assms(3) by auto
  from pop_all_quiet [OF assms(1) v(2,3)] v(1,4) show ?thesis by (auto simp: op_then_def)
qed

end

section \<open>The two brokers keep the promise\<close>

lemma set_queue_simps [simp]:
  "w_db (set_queue k q w) = w_db w" "w_now (set_queue k q w) = w_now w" "quiet (set_queue k q w) = quiet w"
  "w_tx (set_queue k q w) = w_tx w" "w_queue (set_queue k q w) = (w_queue w)(k := q)"
  by (simp_all add: set_queue_def)

lemma job_key_inj: "job_key (Redis new_redis) k = job_key (Redis new_redis) k' \<longleftrightarrow> k = k'"
  by (cases k; cases k') (simp_all add: redis_settlement_key_def new_redis_def queue_keys)

lemma bus_queue_inj: "bus_queue k = bus_queue k' \<longleftrightarrow> k = k'"
  by (cases k; cases k') (simp_all add: azure_queues)

lemma bus_key_inj: "job_key AzureServiceBus k = job_key AzureServiceBus k' \<longleftrightarrow> k = k'"
  by (cases k; cases k') (simp_all add: queue_keys)

lemma waiting_redis_set:
  "waiting (Redis new_redis) (set_queue (job_key (Redis new_redis) k) q w) =
   (waiting (Redis new_redis) w)(k := rev q)"
  by (rule ext) (simp add: job_key_inj del: job_key.simps)

lemma waiting_bus_set:
  "waiting AzureServiceBus (set_queue (bus_queue k) q w) = (waiting AzureServiceBus w)(k := rev q)"
  by (rule ext) (simp add: bus_queue_inj)

lemma waiting_tick [simp]: "waiting q (tick w) = waiting q w"
  by (rule ext, cases q) simp_all

lemma waiting_now [simp]: "waiting q (w\<lparr>w_now := t\<rparr>) = waiting q w"
  by (rule ext, cases q) simp_all

lemma publish_redis: "publish_job L (Redis new_redis) k u = redis_lpush (job_key (Redis new_redis) k) (l_uuid_string L u)"
  by (cases k) (simp_all add: redis_publish_payment_settlement_def redis_publish_webhook_delivery_def
      redis_publish_refund_settlement_def)

lemma publish_bus: "publish_job L AzureServiceBus k u = bus_send (bus_queue k) (l_uuid_string L u)"
  by (cases k) (simp_all add: bus_publish_payment_settlement_def bus_publish_webhook_delivery_def
      bus_publish_refund_settlement_def)

lemma redis_lpush_wp:
  "wp (redis_lpush (job_key (Redis new_redis) k) s)
     (\<lambda>_ v. w_db v = w_db w \<and> waiting (Redis new_redis) v = (waiting (Redis new_redis) w)(k := waiting (Redis new_redis) w k @ [s]))
     (\<lambda>_ v. w_db v = w_db w \<and> (waiting (Redis new_redis) v = waiting (Redis new_redis) w \<or>
        waiting (Redis new_redis) v = (waiting (Redis new_redis) w)(k := waiting (Redis new_redis) w k @ [s]))) w"
  by (auto simp: wp_def redis_lpush_def waiting_redis_set simp del: job_key.simps split: fault.splits)

lemma bus_send_wp:
  "wp (bus_send (bus_queue k) s)
     (\<lambda>_ v. w_db v = w_db w \<and> waiting AzureServiceBus v = (waiting AzureServiceBus w)(k := waiting AzureServiceBus w k @ [s]))
     (\<lambda>_ v. w_db v = w_db w \<and> (waiting AzureServiceBus v = waiting AzureServiceBus w \<or>
        waiting AzureServiceBus v = (waiting AzureServiceBus w)(k := waiting AzureServiceBus w k @ [s]))) w"
  by (auto simp: wp_def bus_send_def waiting_bus_set split: fault.splits)

text \<open>One \<open>BRPOP\<close> over the three lists.\<close>

abbreviation redis_lists :: "string list" where
  "redis_lists \<equiv> map (job_key (Redis new_redis)) [SettlementJob, WebhookJob, RefundJob]"

lemma rev_last_butlast: "xs \<noteq> [] \<Longrightarrow> rev xs = last xs # rev (butlast xs)"
  by (metis append_butlast_last_id rev_eq_Cons_iff rev_rev_ident)

lemma redis_brpop_wp:
  "wp (redis_brpop t redis_lists)
     (\<lambda>r v. w_db v = w_db w \<and> (case r of None \<Rightarrow> waiting (Redis new_redis) v = waiting (Redis new_redis) w
        | Some kv \<Rightarrow> \<exists>k s. kv = [job_key (Redis new_redis) k, s] \<and> takes_one (waiting (Redis new_redis)) w k s v))
     (\<lambda>_. may_lose (waiting (Redis new_redis)) w) w"
proof -
  have f: "\<exists>k. q = job_key (Redis new_redis) k \<and> w_queue w q \<noteq> []"
    if "find (\<lambda>k. w_queue w k \<noteq> []) redis_lists = Some q" for q
  proof -
    have "q \<in> set redis_lists \<and> w_queue w q \<noteq> []" using find_Some_iff_in [OF that] .
    then show ?thesis unfolding set_map by blast
  qed
  have t: "takes_one (waiting (Redis new_redis)) w k (last (w_queue w (job_key (Redis new_redis) k)))
      (set_queue (job_key (Redis new_redis) k) (butlast (w_queue w (job_key (Redis new_redis) k))) (tick w))"
    if "w_queue w (job_key (Redis new_redis) k) \<noteq> []" for k
    unfolding takes_one_def waiting_redis_set using that
    by (auto simp: rev_last_butlast simp del: job_key.simps)
  show ?thesis
  proof (cases "find (\<lambda>k. w_queue w k \<noteq> []) redis_lists")
    case None
    then show ?thesis
      by (simp add: redis_brpop_def wp_def may_loseI(1) del: job_key.simps list.map waiting.simps)
  next
    case (Some q)
    then obtain k where k: "q = job_key (Redis new_redis) k" "w_queue w q \<noteq> []" using f by blast
    note tk = t [OF k(2) [unfolded k(1)]]
    show ?thesis
      using Some tk
      by (auto simp: redis_brpop_def wp_def k(1) may_loseI(1) may_loseI(2) [OF _ tk]
          simp del: job_key.simps list.map waiting.simps)
  qed
qed

lemma redis_pop_wp:
  "wp (br_pop_job L (Redis new_redis) t)
     (hands_over L (job_key (Redis new_redis)) (waiting (Redis new_redis)) w)
     (\<lambda>_. may_lose (waiting (Redis new_redis)) w) w"
proof -
  have e: "br_pop_job L (Redis new_redis) t = op_then (redis_brpop t redis_lists)
       (\<lambda>res. case res of
          None \<Rightarrow> op_err ErrNoJob
        | Some (k # v # _) \<Rightarrow>
            (case l_uuid_parse L v of None \<Rightarrow> op_err (ErrUUID v) | Some u \<Rightarrow> op_ok (k, u))
        | Some _ \<Rightarrow> op_err ErrBroker)"
    by (simp add: redis_br_pop_job_def)
  show ?thesis
    unfolding e
  proof (rule wp_thenI, rule wp_mono [OF redis_brpop_wp], goal_cases)
    case (1 r v)
    show ?case
    proof (cases r)
      case None
      with 1 show ?thesis by (simp add: wp_def op_err_def may_loseI del: waiting.simps)
    next
      case (Some kv)
      with 1 obtain k s where kv: "w_db v = w_db w" "kv = [job_key (Redis new_redis) k, s]"
          "takes_one (waiting (Redis new_redis)) w k s v" by auto
      from may_loseI(2) [OF kv(1,3)] hands_overI [OF kv(1,3)] show ?thesis
        by (simp add: Some kv(2) wp_def op_err_def op_ok_def split: option.splits)
    qed
  qed
qed

lemma redis_pop_first:
  assumes "quiet w" and "waiting (Redis new_redis) w k = s # rest"
    and "\<And>k'. k' < k \<Longrightarrow> waiting (Redis new_redis) w k' = []" and "l_uuid_parse L s = Some u"
  shows "\<exists>v. br_pop_job L (Redis new_redis) t w = (Inr (job_key (Redis new_redis) k, u), v) \<and> quiet v"
proof -
  let ?q = "\<lambda>k. w_queue w (job_key (Redis new_redis) k)"
  have e: "\<And>k'. k' < k \<Longrightarrow> ?q k' = []" using assms(3) by simp
  have k: "?q k \<noteq> []" "last (?q k) = s" using assms(2) by (simp_all add: last_rev [symmetric] rev_swap) 
  have "find (\<lambda>k. w_queue w k \<noteq> []) redis_lists = Some (job_key (Redis new_redis) k)"
    using e [of SettlementJob] e [of WebhookJob] k(1)
    by (cases k) (simp_all add: less_job_kind_def del: job_key.simps)
  with k(2) assms(1,4) show ?thesis
    by (simp add: redis_br_pop_job_def redis_brpop_def op_then_def op_ok_def)
qed


interpretation redis_broker: broker L "publish_job L (Redis new_redis)" "br_pop_job L (Redis new_redis) t"
  "job_key (Redis new_redis)" "waiting (Redis new_redis)"
proof
  show "wp (publish_job L (Redis new_redis) k u)
     (\<lambda>_ v. w_db v = w_db w \<and> waiting (Redis new_redis) v =
        (waiting (Redis new_redis) w)(k := waiting (Redis new_redis) w k @ [l_uuid_string L u]))
     (\<lambda>_ v. w_db v = w_db w \<and> (waiting (Redis new_redis) v = waiting (Redis new_redis) w \<or>
        waiting (Redis new_redis) v =
          (waiting (Redis new_redis) w)(k := waiting (Redis new_redis) w k @ [l_uuid_string L u]))) w" for k u w
    unfolding publish_redis by (rule redis_lpush_wp)
  show "\<exists>v. publish_job L (Redis new_redis) k u w = (Inr (), v) \<and> quiet v" if "quiet w" for w k u
    unfolding publish_redis using that by (simp add: redis_lpush_def)
  show "wp (br_pop_job L (Redis new_redis) t)
     (hands_over L (job_key (Redis new_redis)) (waiting (Redis new_redis)) w)
     (\<lambda>_. may_lose (waiting (Redis new_redis)) w) w" for w
    by (rule redis_pop_wp)
  show "\<exists>v. br_pop_job L (Redis new_redis) t w = (Inr (job_key (Redis new_redis) k, u), v) \<and> quiet v"
    if "quiet w" "waiting (Redis new_redis) w k = s # rest"
      "\<And>k'. k' < k \<Longrightarrow> waiting (Redis new_redis) w k' = []" "l_uuid_parse L s = Some u" for w k s rest u
    using that by (rule redis_pop_first)
qed (simp only: job_key_inj)

section \<open>Service Bus\<close>

lemma bus_receiver_nth: "k \<le> RefundJob \<and> bus_receivers ! job_rank k = bus_queue k \<and> bus_keys ! job_rank k = job_key AzureServiceBus k"
  by (cases k) (simp_all add: bus_receivers_def bus_keys_def less_eq_job_kind_def)

lemma bus_receive_wp:
  "wp (bus_receive (bus_queue k) t)
     (\<lambda>r v. w_db v = w_db w \<and> waiting AzureServiceBus v = waiting AzureServiceBus w \<and>
        w_queue v = w_queue w \<and> w_queue w (bus_queue k) \<noteq> [] \<and> r = [last (w_queue w (bus_queue k))])
     (\<lambda>_ v. w_db v = w_db w \<and> waiting AzureServiceBus v = waiting AzureServiceBus w) w"
  by (auto simp: wp_def bus_receive_def split: fault.splits)

lemma bus_complete_wp:
  assumes "w_queue w (bus_queue k) \<noteq> []"
  shows "wp (bus_complete (bus_queue k))
     (\<lambda>_ v. w_db v = w_db w \<and> takes_one (waiting AzureServiceBus) w k (last (w_queue w (bus_queue k))) v)
     (\<lambda>_. may_lose (waiting AzureServiceBus) w) w"
proof -
  have "takes_one (waiting AzureServiceBus) w k (last (w_queue w (bus_queue k)))
      (set_queue (bus_queue k) (butlast (w_queue w (bus_queue k))) (tick w))"
    unfolding takes_one_def waiting_bus_set using assms by (auto simp: rev_last_butlast)
  then show ?thesis
    by (auto simp: wp_def bus_complete_def intro: may_loseI simp del: waiting.simps split: fault.splits)
qed

lemma bus_abandon_wp:
  "wp (bus_abandon q) (\<lambda>_ v. w_db v = w_db w \<and> waiting AzureServiceBus v = waiting AzureServiceBus w)
     (\<lambda>_ v. w_db v = w_db w \<and> waiting AzureServiceBus v = waiting AzureServiceBus w) w"
  by (auto simp: wp_def bus_abandon_def)

definition scanned :: "lib \<Rightarrow> world \<Rightarrow> (string \<times> uuid) option \<Rightarrow> world \<Rightarrow> bool" where
  "scanned L w r v \<longleftrightarrow>
     (case r of None \<Rightarrow> w_db v = w_db w \<and> waiting AzureServiceBus v = waiting AzureServiceBus w
      | Some job \<Rightarrow> hands_over L (job_key AzureServiceBus) (waiting AzureServiceBus) w job v)"

lemma takes_one_cong: "jobs w' = jobs w \<Longrightarrow> takes_one jobs w' k s v = takes_one jobs w k s v"
  by (simp add: takes_one_def)

lemma scanned_cong:
  "w_db w' = w_db w \<Longrightarrow> waiting AzureServiceBus w' = waiting AzureServiceBus w \<Longrightarrow> scanned L w' = scanned L w"
  using hands_over_cong(1) [of w' w "waiting AzureServiceBus" L "job_key AzureServiceBus"]
  by (intro ext) (simp add: scanned_def del: waiting.simps job_key.simps split: option.splits)

lemma receiver_of_index:
  assumes "idx < 3"
  shows "\<exists>k. bus_receivers ! idx = bus_queue k \<and> bus_keys ! idx = job_key AzureServiceBus k"
proof -
  consider "idx = 0" | "idx = 1" | "idx = 2" using assms by linarith
  then show ?thesis
    by cases (use bus_receiver_nth [of SettlementJob] bus_receiver_nth [of WebhookJob]
        bus_receiver_nth [of RefundJob] in \<open>auto simp del: job_key.simps bus_queue.simps\<close>)
qed

lemma bus_scan_wp:
  assumes "\<forall>i \<in> set is. i < 3"
  shows "wp (bus_scan L t is) (scanned L w) (\<lambda>_. may_lose (waiting AzureServiceBus) w) w"
  using assms
proof (induction "is" arbitrary: w)
  case Nil
  then show ?case by (simp add: wp_def op_ok_def scanned_def)
next
  case (Cons idx rest)
  from Cons.prems receiver_of_index [of idx] obtain k where
    idx: "bus_receivers ! idx = bus_queue k" "bus_keys ! idx = job_key AzureServiceBus k" by auto
  have IH: "wp (bus_scan L t rest) (scanned L w) (\<lambda>_. may_lose (waiting AzureServiceBus) w) w1"
    if "w_db w1 = w_db w" "waiting AzureServiceBus w1 = waiting AzureServiceBus w" for w1
    using Cons.IH [of w1] Cons.prems scanned_cong [OF that] hands_over_cong(2) [OF that] by (simp del: waiting.simps)
  show ?case
    unfolding bus_scan.simps idx
  proof (rule wp_tryI, rule wp_mono [OF bus_receive_wp], goal_cases)
    case (1 r v)
    then have q: "w_queue v (bus_queue k) \<noteq> []" "w_queue v = w_queue w" "w_db v = w_db w"
      and same: "waiting AzureServiceBus v = waiting AzureServiceBus w"
      and r: "r = [last (w_queue v (bus_queue k))]" by simp_all
    note eq = hands_over_cong [of v w, OF q(3) same] takes_one_cong [of "waiting AzureServiceBus" v w, OF same]
    show ?case
    proof (cases "l_uuid_parse L (last (w_queue v (bus_queue k)))")
      case None
      show ?thesis
        unfolding r
        by (simp add: None del: waiting.simps job_key.simps bus_queue.simps, rule wp_tryI, rule wp_mono [OF bus_abandon_wp])
          (simp_all add: wp_def op_err_def may_loseI q(3) same del: waiting.simps)
    next
      case (Some u)
      show ?thesis
        unfolding r
        by (simp add: Some del: waiting.simps job_key.simps bus_queue.simps, rule wp_thenI, rule wp_mono [OF bus_complete_wp [OF q(1)]])
          (simp_all add: wp_def op_ok_def scanned_def eq q(3) hands_overI [OF _ _ Some] del: waiting.simps job_key.simps)
    qed
  next
    case (2 e v)
    then show ?case
      using IH [of v] by (auto simp: wp_def op_err_def may_loseI simp del: waiting.simps)
  qed
qed


lemma bus_poll_wp: "wp (bus_poll L dl start)
     (hands_over L (job_key AzureServiceBus) (waiting AzureServiceBus) w)
     (\<lambda>_. may_lose (waiting AzureServiceBus) w) w"
proof (induction L dl start w rule: bus_poll.induct)
  case (1 L dl start w)
  show ?case
  proof (cases "w_now w < dl")
    case False
    then show ?thesis by (subst wp_def, subst bus_poll.simps) (simp add: may_loseI del: waiting.simps)
  next
    case True
    let ?is = "[(start + 0) mod 3, (start + 1) mod 3, (start + 2) mod 3]"
    obtain res v where scan: "bus_scan L (min 400000 (dl - w_now w)) ?is w = (res, v)"
      by (cases "bus_scan L (min 400000 (dl - w_now w)) ?is w")
    have post: "wp (bus_scan L (min 400000 (dl - w_now w)) ?is) (scanned L w) (\<lambda>_. may_lose (waiting AzureServiceBus) w) w"
      by (rule bus_scan_wp) simp
    show ?thesis
    proof (cases res)
      case (Inl e)
      with wp_Inl [OF post] scan True show ?thesis
        by (subst wp_def, subst bus_poll.simps) simp
    next
      case (Inr r)
      note sc = wp_Inr [OF post scan [unfolded Inr]]
      show ?thesis
      proof (cases r)
        case (Some job)
        with sc scan True Inr show ?thesis
          by (subst wp_def, subst bus_poll.simps) (simp add: scanned_def del: waiting.simps job_key.simps)
      next
        case None
        let ?v = "v\<lparr>w_now := w_now v + 15000\<rparr>"
        have same: "w_db ?v = w_db w" "waiting AzureServiceBus ?v = waiting AzureServiceBus w"
          using sc None by (simp_all add: scanned_def del: waiting.simps)
        have IH: "wp (bus_poll L dl ((start + 1) mod 3))
           (hands_over L (job_key AzureServiceBus) (waiting AzureServiceBus) ?v)
           (\<lambda>_. may_lose (waiting AzureServiceBus) ?v) ?v"
          by (rule 1 [OF True scan [symmetric] Inr None])
        have "bus_poll L dl start w = bus_poll L dl ((start + 1) mod 3) ?v"
          by (subst bus_poll.simps) (simp add: True scan [simplified] Inr None)
        with IH show ?thesis
          unfolding hands_over_cong [of ?v w, OF same] wp_def by simp
      qed
    qed
  qed
qed


lemma bus_scan_first:
  assumes "quiet w" and "waiting AzureServiceBus w k = s # rest"
    and "\<And>k'. k' < k \<Longrightarrow> waiting AzureServiceBus w k' = []" and "l_uuid_parse L s = Some u"
  shows "\<exists>v. bus_scan L t [0, 1, 2] w = (Inr (Some (job_key AzureServiceBus k, u)), v) \<and> quiet v"
proof -
  have e: "\<And>k'. k' < k \<Longrightarrow> w_queue w (bus_queue k') = []" using assms(3) by simp
  have q: "w_queue w (bus_queue k) \<noteq> []" "last (w_queue w (bus_queue k)) = s"
    using assms(2) by (simp_all add: last_rev [symmetric] rev_swap)
  show ?thesis
    using e [of SettlementJob] e [of WebhookJob] q assms(1,4)
    by (cases k)
      (simp_all add: less_job_kind_def bus_receivers_def bus_keys_def bus_receive_def bus_complete_def
        op_try_def op_then_def op_ok_def)
qed

lemma bus_pop_first:
  assumes "quiet w" and "waiting AzureServiceBus w k = s # rest"
    and "\<And>k'. k' < k \<Longrightarrow> waiting AzureServiceBus w k' = []" and "l_uuid_parse L s = Some u" and "0 < t"
  shows "\<exists>v. br_pop_job L AzureServiceBus t w = (Inr (job_key AzureServiceBus k, u), v) \<and> quiet v"
proof -
  obtain v where v: "bus_scan L (min 400000 t) [0, 1, 2] w = (Inr (Some (job_key AzureServiceBus k, u)), v)" "quiet v"
    using bus_scan_first [OF assms(1-4)] by blast
  have "[(0 + 0) mod 3, (0 + 1) mod 3, (0 + 2) mod 3] = [0, 1, 2 :: nat]" by simp
  with v assms(5) show ?thesis
    unfolding br_pop_job.simps bus_br_pop_job_def
    by (subst bus_poll.simps) (simp add: numeral_2_eq_2 del: bus_scan.simps job_key.simps)
qed

text \<open>The worker waits five seconds.\<close>

interpretation bus_broker: broker L "publish_job L AzureServiceBus" "br_pop_job L AzureServiceBus 5000000"
  "job_key AzureServiceBus" "waiting AzureServiceBus"
proof
  show "wp (publish_job L AzureServiceBus k u)
     (\<lambda>_ v. w_db v = w_db w \<and> waiting AzureServiceBus v =
        (waiting AzureServiceBus w)(k := waiting AzureServiceBus w k @ [l_uuid_string L u]))
     (\<lambda>_ v. w_db v = w_db w \<and> (waiting AzureServiceBus v = waiting AzureServiceBus w \<or>
        waiting AzureServiceBus v =
          (waiting AzureServiceBus w)(k := waiting AzureServiceBus w k @ [l_uuid_string L u]))) w" for k u w
    unfolding publish_bus by (rule bus_send_wp)
  show "\<exists>v. publish_job L AzureServiceBus k u w = (Inr (), v) \<and> quiet v" if "quiet w" for w k u
    unfolding publish_bus using that by (simp add: bus_send_def)
  show "wp (br_pop_job L AzureServiceBus 5000000)
     (hands_over L (job_key AzureServiceBus) (waiting AzureServiceBus) w)
     (\<lambda>_. may_lose (waiting AzureServiceBus) w) w" for w
    using bus_poll_wp by (simp add: bus_br_pop_job_def wp_def del: job_key.simps waiting.simps)
  show "\<exists>v. br_pop_job L AzureServiceBus 5000000 w = (Inr (job_key AzureServiceBus k, u), v) \<and> quiet v"
    if "quiet w" "waiting AzureServiceBus w k = s # rest"
      "\<And>k'. k' < k \<Longrightarrow> waiting AzureServiceBus w k' = []" "l_uuid_parse L s = Some u" for w k s rest u
    using bus_pop_first [OF that, of 5000000] by simp
qed (simp only: bus_key_inj)

lemma bus_poll_now:
  "bus_poll L dl start w = (r, v) \<Longrightarrow> w_now w \<le> dl + 815000 \<Longrightarrow> w_now v \<le> dl + 815000"
proof (induction L dl start w rule: bus_poll.induct)
  case (1 L dl start w)
  show ?case
  proof (cases "w_now w < dl")
    case False
    with 1 show ?thesis by (subst (asm) bus_poll.simps) simp
  next
    case True
    let ?t = "min 400000 (dl - w_now w)"
    let ?is = "[(start + 0) mod 3, (start + 1) mod 3, (start + 2) mod 3]"
    obtain res x where scan: "bus_scan L ?t ?is w = (res, x)" by (cases "bus_scan L ?t ?is w")
    have bound: "n \<le> dl + 800000" if "n \<le> now + 3 * m" "m \<le> 400000" "m \<le> dl - now" for n now m :: int
      using that by linarith
    have x: "w_now x \<le> dl + 800000"
      by (rule bound [of _ "w_now w" ?t]) (use bus_scan_now [OF scan] True in simp_all)
    show ?thesis
    proof (cases "res = Inr None")
      case False
      with 1(2) True scan x show ?thesis
        by (subst (asm) bus_poll.simps) (auto split: sum.splits option.splits)
    next
      case None: True
      have "bus_poll L dl ((start + 1) mod 3) (x\<lparr>w_now := w_now x + 15000\<rparr>) = (r, v)"
        using 1(2) True scan None by (subst (asm) bus_poll.simps) simp
      from 1(1) [OF True scan [symmetric] None refl this] x show ?thesis by simp
    qed
  qed
qed

section \<open>Properties\<close>



text \<open>
  C24: on either broker a waiting settlement job is popped before any other, whatever waits in the
  other queues; the rotation of the Service Bus loop starts at settlement in every call.
\<close>

theorem broker_settlement_first:
  assumes "quiet w" and "q = Redis new_redis \<or> q = AzureServiceBus"
    and "waiting q w SettlementJob = l_uuid_string L u # rest" and "uuid_roundtrip L"
  shows "\<exists>v. br_pop_job L q 5000000 w = (Inr (settlement_key q, u), v) \<and>
    waiting q v = (waiting q w)(SettlementJob := rest)"
proof -
  have n: "\<And>k. k < SettlementJob \<Longrightarrow> waiting q w k = []" by (simp add: less_job_kind_def)
  have k: "job_key q SettlementJob = settlement_key q" by simp
  from assms(2) show ?thesis
  proof
    assume q: "q = Redis new_redis"
    show ?thesis
      using redis_broker.pop_first_takes [OF assms(1,3) [unfolded q] n [unfolded q] uuid_roundtripD [OF assms(4)], of 5000000]
      unfolding q k [symmetric, unfolded q] by blast
  next
    assume q: "q = AzureServiceBus"
    show ?thesis
      using bus_broker.pop_first_takes [OF assms(1,3) [unfolded q] n [unfolded q] uuid_roundtripD [OF assms(4)]]
      unfolding q k [symmetric, unfolded q] by blast
  qed
qed

theorem broker_settlement_first_witness:
  "\<exists>v. br_pop_job ref_lib AzureServiceBus 5000000
      ((ref_world ref_db [])\<lparr>w_queue := (\<lambda>_. [])(azure_queue_webhook := [ref_uuid_string 4], azure_queue_settlement := [ref_uuid_string 3])\<rparr>) =
     (Inr (default_settlement_queue_key, 3), v) \<and> waiting AzureServiceBus v WebhookJob = [ref_uuid_string 4]"
proof -
  let ?w = "(ref_world ref_db [])\<lparr>w_queue := (\<lambda>_. [])(azure_queue_webhook := [ref_uuid_string 4], azure_queue_settlement := [ref_uuid_string 3])\<rparr>"
  have "quiet ?w" by (simp add: quiet_def)
  moreover have "waiting AzureServiceBus ?w SettlementJob = l_uuid_string ref_lib 3 # []"
    by (simp add: ref_lib_def)
  moreover have "waiting AzureServiceBus ?w WebhookJob = [ref_uuid_string 4]" by (simp add: azure_queues)
  ultimately show ?thesis
    using broker_settlement_first [of ?w AzureServiceBus ref_lib 3 "[]", OF _ _ _ ref_lib_roundtrip]
    by (auto simp del: waiting.simps)
qed


text \<open>
  C26: on either broker a job that is handed over has left its queue before the worker does
  anything with it, and a pop that fails may have taken a job with it; no pop touches the
  database. Delivery is at most once.
\<close>

theorem broker_hands_over_once:
  "wp (br_pop_job L (Redis new_redis) t)
     (hands_over L (job_key (Redis new_redis)) (waiting (Redis new_redis)) w)
     (\<lambda>_. may_lose (waiting (Redis new_redis)) w) w \<and>
   wp (br_pop_job L AzureServiceBus 5000000)
     (hands_over L (job_key AzureServiceBus) (waiting AzureServiceBus) w)
     (\<lambda>_. may_lose (waiting AzureServiceBus) w) w"
  by (rule conjI [OF redis_broker.pop_takes bus_broker.pop_takes])

end
