(* ===== verification/Webhook.thy ===== *)
theory Webhook
  imports Queue
begin

unbundle bit_operations_syntax

text \<open>
  \<open>internal/webhook\<close>: the notifications to the merchants' servers. A delivery row is written
  once per event and its identifier published; \<open>ProcessDelivery\<close> posts it, at most
  \<open>max\_attempts\<close> times, until an answer in the 200s, and gives up to the dead-letter
  status.
\<close>

section \<open>Signature\<close>

definition xor_byte :: "nat \<Rightarrow> char \<Rightarrow> char" where
  "xor_byte n c = char_of ((of_char c :: nat) XOR n)"

definition hmac_sha256 :: "lib \<Rightarrow> string \<Rightarrow> string \<Rightarrow> string" where
  "hmac_sha256 L key msg =
     (let k = (if length key > 64 then l_sha256 L key else key);
          padded = k @ replicate (64 - length k) (CHR 0x00)
      in l_sha256 L (map (xor_byte 0x5C) padded @ l_sha256 L (map (xor_byte 0x36) padded @ msg)))"

definition sign :: "lib \<Rightarrow> string \<Rightarrow> string \<Rightarrow> string \<Rightarrow> string" where
  "sign L secret timestamp body = hex_encode (hmac_sha256 L secret (timestamp @ ''.'' @ body))"

section \<open>Enqueue\<close>

definition event_payment_settled :: string where
  "event_payment_settled = ''payment.settled''"

definition event_refund_succeeded :: string where
  "event_refund_succeeded = ''refund.succeeded''"

definition del_key :: "delivery \<Rightarrow> uuid \<times> string" where
  "del_key d = (del_tenant d, del_merchant_key d)"

text \<open>The columns the two \<open>INSERT\<close> statements give; the rest are the table's defaults.\<close>

record new_delivery =
  nd_tenant :: uuid
  nd_payment :: uuid
  nd_refund :: "uuid option"
  nd_event :: string
  nd_key :: string
  nd_url :: string
  nd_payload :: json

definition sql_insert_delivery :: "new_delivery \<Rightarrow> delivery option stmt" where
  "sql_insert_delivery n g d =
     (let r = \<lparr>del_id = g_uuid g, del_tenant = nd_tenant n, del_payment = Some (nd_payment n),
               del_refund = nd_refund n, del_event = nd_event n, del_merchant_key = nd_key n,
               del_url = nd_url n, del_payload = nd_payload n, del_status = ''pending'',
               del_attempts = 0, del_max = 5, del_error = None, del_next = g_now g,
               del_created = g_now g, del_updated = g_now g\<rparr>
      in if (nd_tenant n, nd_key n) \<in> del_key ` set (deliveries d) then Inr (None, d)
         else if g_uuid g \<in> del_id ` set (deliveries d) then Inl ErrDB
         else if nd_tenant n \<notin> ten_id ` set (tenants d) \<or> nd_payment n \<notin> pay_id ` set (payments d) \<or>
                 (case nd_refund n of None \<Rightarrow> False | Some r \<Rightarrow> r \<notin> ref_id ` set (refunds d))
              then Inl ErrDB
         else Inr (Some r, d\<lparr>deliveries := deliveries d @ [r]\<rparr>))"

interpretation del_ins: keyed_insert deliveries del_key "\<lambda>n. (nd_tenant n, nd_key n)" sql_insert_delivery
  by unfold_locales
    (auto simp: sql_insert_delivery_def del_key_def Let_def split: if_splits option.splits)

text \<open>The joins with the tenant: only a settled object has a row.\<close>

definition sql_settled_payment :: "uuid \<Rightarrow> db \<Rightarrow> (payment \<times> tenant_row) option" where
  "sql_settled_payment pid d =
     (case find (\<lambda>p. pay_id p = pid \<and> pay_status p = ''succeeded'') (payments d) of
        None \<Rightarrow> None
      | Some p \<Rightarrow> map_option (Pair p) (find (\<lambda>t. ten_id t = pay_tenant p) (tenants d)))"

definition sql_succeeded_refund :: "uuid \<Rightarrow> db \<Rightarrow> (refund \<times> tenant_row) option" where
  "sql_succeeded_refund rid d =
     (case find (\<lambda>r. ref_id r = rid \<and> ref_status r = ''succeeded'') (refunds d) of
        None \<Rightarrow> None
      | Some r \<Rightarrow> map_option (Pair r) (find (\<lambda>t. ten_id t = ref_tenant r) (tenants d)))"

text \<open>A tenant is notified when both the address and the secret are set and not empty.\<close>

definition webhook_of :: "tenant_row \<Rightarrow> (string \<times> string) option" where
  "webhook_of t =
     (case ten_webhook_url t of
        None \<Rightarrow> None
      | Some url \<Rightarrow>
          (case ten_webhook_secret t of
             None \<Rightarrow> None
           | Some secret \<Rightarrow> if url = [] \<or> secret = [] then None else Some (url, secret)))"

text \<open>The common tail: the insertion in a transaction, then, after the commit, the publication.\<close>

definition enqueue_delivery :: "lib \<Rightarrow> publisher \<Rightarrow> new_delivery \<Rightarrow> unit action" where
  "enqueue_delivery L pub n =
     with_tx (op_then (exec Tx (sql_insert_delivery n)) (\<lambda>ins.
       case ins of
         None \<Rightarrow> commit_tx
       | Some row \<Rightarrow> op_then commit_tx (\<lambda>_. publish_webhook_delivery L pub (del_id row))))"

definition payment_delivery :: "lib \<Rightarrow> payment \<Rightarrow> string \<Rightarrow> new_delivery" where
  "payment_delivery L p url =
     \<lparr>nd_tenant = pay_tenant p, nd_payment = pay_id p, nd_refund = None,
      nd_event = event_payment_settled,
      nd_key = ''payflow/evt/payment.settled/'' @ l_uuid_string L (pay_id p), nd_url = url,
      nd_payload = JObj [(''amount_cents'', JNum (sint (pay_amount p))),
                         (''currency'', JStr (pay_currency p)),
                         (''payment_id'', JStr (l_uuid_string L (pay_id p))),
                         (''type'', JStr event_payment_settled)]\<rparr>"

definition refund_delivery :: "lib \<Rightarrow> refund \<Rightarrow> string \<Rightarrow> new_delivery" where
  "refund_delivery L r url =
     \<lparr>nd_tenant = ref_tenant r, nd_payment = ref_payment r, nd_refund = Some (ref_id r),
      nd_event = event_refund_succeeded,
      nd_key = ''payflow/evt/refund.succeeded/'' @ l_uuid_string L (ref_id r), nd_url = url,
      nd_payload = JObj [(''amount_cents'', JNum (sint (ref_amount r))),
                         (''currency'', JStr (ref_currency r)),
                         (''payment_id'', JStr (l_uuid_string L (ref_payment r))),
                         (''refund_id'', JStr (l_uuid_string L (ref_id r))),
                         (''type'', JStr event_refund_succeeded)]\<rparr>"

definition enqueue_payment_settled :: "lib \<Rightarrow> publisher \<Rightarrow> uuid \<Rightarrow> unit action" where
  "enqueue_payment_settled L pub pid =
     op_then (query Pool (sql_settled_payment pid)) (\<lambda>row.
     case row of
       None \<Rightarrow> op_ok ()
     | Some (p, t) \<Rightarrow>
         (case webhook_of t of
            None \<Rightarrow> op_ok ()
          | Some (url, secret) \<Rightarrow> enqueue_delivery L pub (payment_delivery L p url)))"

definition enqueue_refund_succeeded :: "lib \<Rightarrow> publisher \<Rightarrow> uuid \<Rightarrow> unit action" where
  "enqueue_refund_succeeded L pub rid =
     op_then (query Pool (sql_succeeded_refund rid)) (\<lambda>row.
     case row of
       None \<Rightarrow> op_ok ()
     | Some (r, t) \<Rightarrow>
         (case webhook_of t of
            None \<Rightarrow> op_ok ()
          | Some (url, secret) \<Rightarrow> enqueue_delivery L pub (refund_delivery L r url)))"

section \<open>ProcessDelivery\<close>

definition sql_delivery_target :: "uuid \<Rightarrow> db \<Rightarrow> (delivery \<times> tenant_row) option" where
  "sql_delivery_target did d =
     (case find (\<lambda>r. del_id r = did) (deliveries d) of
        None \<Rightarrow> None
      | Some r \<Rightarrow> map_option (Pair r) (find (\<lambda>t. ten_id t = del_tenant r) (tenants d)))"

text \<open>The updates; each changes only a row that is still pending.\<close>

definition update_pending :: "uuid \<Rightarrow> (delivery \<Rightarrow> delivery) \<Rightarrow> unit stmt" where
  "update_pending did f g d =
     Inr ((), d\<lparr>deliveries := update_where (\<lambda>r. del_id r = did \<and> del_status r = ''pending'')
        (\<lambda>r. (f r)\<lparr>del_updated := g_now g\<rparr>) (deliveries d)\<rparr>)"

definition sql_give_up :: "uuid \<Rightarrow> unit stmt" where
  "sql_give_up did = update_pending did (\<lambda>r. r\<lparr>del_status := ''dlq''\<rparr>)"

definition sql_give_up_because :: "uuid \<Rightarrow> string \<Rightarrow> unit stmt" where
  "sql_give_up_because did msg = update_pending did (\<lambda>r. r\<lparr>del_status := ''dlq'', del_error := Some msg\<rparr>)"

definition sql_delivered :: "uuid \<Rightarrow> unit stmt" where
  "sql_delivered did = update_pending did (\<lambda>r. r\<lparr>del_status := ''succeeded''\<rparr>)"

definition sql_attempt_failed :: "uuid \<Rightarrow> int \<Rightarrow> string \<Rightarrow> string \<Rightarrow> unit stmt" where
  "sql_attempt_failed did n msg status =
     update_pending did (\<lambda>r. r\<lparr>del_attempts := n, del_error := Some msg, del_status := status\<rparr>)"

definition http_post :: "posted \<Rightarrow> reply action" where
  "http_post p w = (Inr (w_merchant w (length (w_sent w))), w\<lparr>w_sent := w_sent w @ [p]\<rparr>)"

fun delivered :: "reply \<Rightarrow> bool" where
  "delivered (Status c) \<longleftrightarrow> 200 \<le> c \<and> c < 300"
| "delivered (Refused _) \<longleftrightarrow> False"

fun reply_error :: "reply \<Rightarrow> string" where
  "reply_error (Status c) = ''http_'' @ format_int c"
| "reply_error (Refused msg) = msg"

definition max_attempts :: "int \<Rightarrow> delivery \<Rightarrow> int" where
  "max_attempts default_max r =
     (if del_max r \<le> 0 then (if default_max \<le> 0 then 5 else default_max) else del_max r)"

text \<open>
  One turn of the loop: \<open>None\<close> when the function returns, \<open>Some n\<close> when the
  \<open>n\<close>-th attempt has failed and another follows.
\<close>

definition delivery_attempt :: "lib \<Rightarrow> int \<Rightarrow> uuid \<Rightarrow> int option action" where
  "delivery_attempt L default_max did =
     op_then (query Pool (sql_delivery_target did)) (\<lambda>row.
     case row of
       None \<Rightarrow> op_ok None
     | Some (r, t) \<Rightarrow>
         (case ten_webhook_secret t of
            None \<Rightarrow> op_err ErrDB
          | Some secret \<Rightarrow>
              if del_status r \<noteq> ''pending'' then op_ok None
              else if del_attempts r \<ge> max_attempts default_max r then
                op_try (exec Pool (sql_give_up did)) (\<lambda>_. op_ok None)
              else if secret = [] then
                op_try (exec Pool (sql_give_up_because did ''missing_webhook_signing_secret'')) (\<lambda>_. op_ok None)
              else
              op_then (op_get w_now) (\<lambda>now.
              let ts = format_int (now div 1000000);
                  body = l_jsonb_text L (del_payload r);
                  sig = sign L secret ts body in
              if \<not> l_url_ok L (del_url r) then op_err ErrRequest
              else
              op_then (http_post \<lparr>post_url = del_url r, post_timestamp = ts, post_signature = sig, post_body = body\<rparr>) (\<lambda>resp.
              if delivered resp then op_then (exec Pool (sql_delivered did)) (\<lambda>_. op_ok None)
              else
              let n = del_attempts r + 1;
                  status = (if n \<ge> max_attempts default_max r then ''dlq'' else ''pending'') in
              op_then (exec Pool (sql_attempt_failed did n (reply_error resp) status)) (\<lambda>_.
              op_ok (if status = ''dlq'' then None else Some n))))))"

definition go_min :: "int \<Rightarrow> int \<Rightarrow> int" where
  "go_min a b = (if a < b then a else b)"

definition backoff :: "int \<Rightarrow> time" where
  "backoff n = 50 * 2 ^ nat (go_min n 6) * 1000"

text \<open>The \<open>select\<close> between the context's end and the timer.\<close>

definition wait_backoff :: "int \<Rightarrow> unit action" where
  "wait_backoff n w =
     (case w_deadline w of
        Some t \<Rightarrow>
          if t < w_now w + backoff n then (Inl ErrContext, w\<lparr>w_now := max t (w_now w)\<rparr>)
          else (Inr (), w\<lparr>w_now := w_now w + backoff n\<rparr>)
      | None \<Rightarrow> (Inr (), w\<lparr>w_now := w_now w + backoff n\<rparr>))"

text \<open>The attempts the row still has; every failed attempt uses one up.\<close>

definition attempts_left :: "int \<Rightarrow> uuid \<Rightarrow> db \<Rightarrow> nat" where
  "attempts_left default_max did d =
     (case find (\<lambda>r. del_id r = did) (deliveries d) of
        None \<Rightarrow> 0
      | Some r \<Rightarrow> nat (max_attempts default_max r - del_attempts r))"

section \<open>One turn of the loop\<close>

lemma put_db_sent [simp]: "w_sent (put_db q d w) = w_sent w"
  by (cases q) simp_all

lemma wp_exec_Pool_env:
  assumes "\<And>v. w_db v = w_db w \<Longrightarrow> env_of v = env_of w \<Longrightarrow> w_sent v = w_sent w \<Longrightarrow> E ErrDB v"
    and "\<And>v e. f (gen_of w) (w_db w) = Inl e \<Longrightarrow> w_db v = w_db w \<Longrightarrow> env_of v = env_of w \<Longrightarrow>
      w_sent v = w_sent w \<Longrightarrow> E e v"
    and "\<And>x d v. f (gen_of w) (w_db w) = Inr (x, d) \<Longrightarrow> w_db v = d \<Longrightarrow> env_of v = env_of w \<Longrightarrow>
      w_sent v = w_sent w \<Longrightarrow> E ErrDB v \<and> Q x v"
  shows "wp (exec Pool f) Q E w"
  using assms by (auto simp: wp_def exec_def split: sum.splits prod.splits)

lemma wp_query_Pool_env:
  assumes "\<And>v. w_db v = w_db w \<Longrightarrow> env_of v = env_of w \<Longrightarrow> w_sent v = w_sent w \<Longrightarrow> E ErrDB v \<and> Q (f (w_db w)) v"
  shows "wp (query Pool f) Q E w"
  unfolding query_def by (rule wp_exec_Pool_env) (use assms in auto)

lemma wp_http_postI:
  "Q (w_merchant w (length (w_sent w))) (w\<lparr>w_sent := w_sent w @ [p]\<rparr>) \<Longrightarrow> wp (http_post p) Q E w"
  by (simp add: wp_def http_post_def)

text \<open>A post of a delivery: its address and body, signed with the tenant's secret.\<close>

definition post_of :: "lib \<Rightarrow> delivery \<Rightarrow> string \<Rightarrow> posted \<Rightarrow> bool" where
  "post_of L r secret p \<longleftrightarrow> post_url p = del_url r \<and> post_body p = l_jsonb_text L (del_payload r) \<and>
     post_signature p = sign L secret (post_timestamp p) (post_body p)"

text \<open>What the answer to the post does to the row.\<close>

definition sql_after_reply :: "int \<Rightarrow> uuid \<Rightarrow> delivery \<Rightarrow> reply \<Rightarrow> unit stmt" where
  "sql_after_reply dm did r reply =
     (if delivered reply then sql_delivered did
      else sql_attempt_failed did (del_attempts r + 1) (reply_error reply)
        (if del_attempts r + 1 \<ge> max_attempts dm r then ''dlq'' else ''pending''))"

text \<open>
  The outcomes of a turn: nothing happened, the delivery was given up without a post, or it was
  posted once, and the answer is recorded or (when the update failed) not.
\<close>

inductive attempted :: "lib \<Rightarrow> int \<Rightarrow> uuid \<Rightarrow> world \<Rightarrow> err + int option \<Rightarrow> world \<Rightarrow> bool"
  for L :: lib and dm :: int and did :: uuid
where
  idle: "attempted L dm did w res v"
    if "w_db v = w_db w" "env_of v = env_of w" "w_sent v = w_sent w" "\<And>n. res \<noteq> Inr (Some n)"
| gave_up: "attempted L dm did w (Inr None) v"
    if "sql_delivery_target did (w_db w) = Some (r, t)" "del_status r = ''pending''"
      "stmt = sql_give_up did \<or> stmt = sql_give_up_because did msg"
      "stmt g (w_db w) = Inr ((), w_db v)" "env_of v = env_of w" "w_sent v = w_sent w"
| unrecorded: "attempted L dm did w (Inl ErrDB) v"
    if "sql_delivery_target did (w_db w) = Some (r, t)" "ten_webhook_secret t = Some secret"
      "del_status r = ''pending''" "del_attempts r < max_attempts dm r"
      "post_of L r secret p" "w_sent v = w_sent w @ [p]" "env_of v = env_of w" "w_db v = w_db w"
| recorded: "attempted L dm did w res v"
    if "sql_delivery_target did (w_db w) = Some (r, t)" "ten_webhook_secret t = Some secret"
      "del_status r = ''pending''" "del_attempts r < max_attempts dm r"
      "post_of L r secret p" "w_sent v = w_sent w @ [p]" "env_of v = env_of w"
      "reply = w_merchant w (length (w_sent w))"
      "sql_after_reply dm did r reply g (w_db w) = Inr ((), w_db v)"
      "res = Inl ErrDB \<or> res = Inr (if delivered reply \<or> del_attempts r + 1 \<ge> max_attempts dm r then None
         else Some (del_attempts r + 1))"

inductive_cases attempted_again: "attempted L dm did w (Inr (Some n)) v"

lemma wp_attempted_idle:
  "w_db v = w_db w \<Longrightarrow> env_of v = env_of w \<Longrightarrow> w_sent v = w_sent w \<Longrightarrow> (\<And>n. res \<noteq> Inr (Some n)) \<Longrightarrow>
   attempted L dm did w res v"
  by (rule attempted.idle)

lemma update_pending_total: "\<exists>d'. update_pending did f g d = Inr ((), d')"
  by (simp add: update_pending_def)

lemma give_up_wp:
  assumes "sql_delivery_target did (w_db w) = Some (r, t)" "del_status r = ''pending''"
    and stmt: "stmt = sql_give_up did \<or> stmt = sql_give_up_because did msg"
    and v: "w_db v = w_db w" "env_of v = env_of w" "w_sent v = w_sent w"
  shows "wp (op_try (exec Pool stmt) (\<lambda>_. op_ok None))
    (\<lambda>res. attempted L dm did w (Inr res)) (\<lambda>e. attempted L dm did w (Inl e)) v"
proof (rule wp_tryI, rule wp_exec_Pool_env, goal_cases)
  case (1 x)
  then show ?case using v by (intro wp_okI wp_attempted_idle) simp_all
next
  case (2 x e)
  then show ?case using v by (intro wp_okI wp_attempted_idle) simp_all
next
  case (3 u d x)
  have "attempted L dm did w (Inr None) x"
    by (rule attempted.gave_up [OF assms(1,2) stmt, of "gen_of v"]) (use 3 v in simp_all)
  then show ?case by (auto intro: wp_okI)
qed

lemma record_wp:
  assumes "sql_delivery_target did (w_db w) = Some (r, t)" "ten_webhook_secret t = Some secret"
      "del_status r = ''pending''" "del_attempts r < max_attempts dm r"
      "post_of L r secret p" "w_sent v = w_sent w @ [p]" "env_of v = env_of w" "w_db v = w_db w"
    and stmt: "stmt = sql_after_reply dm did r (w_merchant w (length (w_sent w)))"
    and res: "res = (if delivered (w_merchant w (length (w_sent w))) \<or> del_attempts r + 1 \<ge> max_attempts dm r then None
         else Some (del_attempts r + 1))"
  shows "wp (op_then (exec Pool stmt) (\<lambda>_. op_ok res))
    (\<lambda>res. attempted L dm did w (Inr res)) (\<lambda>e. attempted L dm did w (Inl e)) v"
proof (rule wp_thenI, rule wp_exec_Pool_env, goal_cases)
  case (1 x)
  show ?case by (rule attempted.unrecorded [OF assms(1-5)]) (use 1 assms(6-8) in simp_all)
next
  case (2 x e)
  then show ?case
    unfolding stmt sql_after_reply_def sql_delivered_def sql_attempt_failed_def
    by (simp add: update_pending_def split: if_splits)
next
  case (3 u d x)
  have "attempted L dm did w (Inl ErrDB) x"
    by (rule attempted.recorded [OF assms(1-5) _ _ refl, of _ "gen_of v"]) (use 3 assms(6-8) stmt in simp_all)
  moreover have "attempted L dm did w (Inr res) x"
    by (rule attempted.recorded [OF assms(1-5) _ _ refl, of _ "gen_of v"]) (use 3 assms(6-8) stmt res in simp_all)
  ultimately show ?case by (simp add: wp_okI)
qed

lemma delivery_attempt_attempted:
  "wp (delivery_attempt L dm did) (\<lambda>res. attempted L dm did w (Inr res)) (\<lambda>e. attempted L dm did w (Inl e)) w"
  unfolding delivery_attempt_def
proof (rule wp_thenI, rule wp_query_Pool_env, intro conjI, goal_cases)
  case (1 v)
  then show ?case by (rule wp_attempted_idle) simp
next
  case (2 v)
  note idle = wp_attempted_idle [OF 2]
  show ?case
  proof (cases "sql_delivery_target did (w_db w)")
    case None
    then show ?thesis by (simp add: wp_okI idle)
  next
    case (Some rt)
    obtain r t where rt: "rt = (r, t)" by (cases rt)
    note row = Some [unfolded rt]
    show ?thesis
      unfolding row option.case prod.case
    proof (rule wp_optionI, goal_cases)
      case 1
      then show ?case by (simp add: wp_errI idle)
    next
      case (2 secret)
      show ?case
      proof (intro wp_ifI, goal_cases)
        case 1
        then show ?case by (simp add: wp_okI idle)
      next
        case 2
        then show ?case by (intro give_up_wp [OF row _ disjI1 [OF refl] \<open>w_db v = w_db w\<close>
            \<open>env_of v = env_of w\<close> \<open>w_sent v = w_sent w\<close>]) simp
      next
        case 3
        then show ?case by (intro give_up_wp [OF row _ disjI2 [OF refl] \<open>w_db v = w_db w\<close>
            \<open>env_of v = env_of w\<close> \<open>w_sent v = w_sent w\<close>]) simp
      next
        case 4
        have m: "w_merchant v = w_merchant w" using \<open>env_of v = env_of w\<close> by (simp add: env_of_def)
        show ?case
        proof (rule wp_thenI, rule wp_getI, unfold Let_def, intro wp_ifI, goal_cases)
          case 1
          then show ?case by (simp add: wp_errI idle)
        next
          case 2
          show ?case
          proof (rule wp_thenI, rule wp_http_postI, intro wp_ifI, goal_cases)
            case 1
            show ?case
              by (rule record_wp [OF row \<open>ten_webhook_secret t = Some secret\<close>, where p = "_"])
                (use 4 1 m \<open>w_db v = w_db w\<close> \<open>env_of v = env_of w\<close> \<open>w_sent v = w_sent w\<close>
                  in \<open>simp_all add: post_of_def sql_after_reply_def\<close>)
          next
            case 2
            show ?case
              by (rule record_wp [OF row \<open>ten_webhook_secret t = Some secret\<close>, where p = "_"])
                (use 4 2 m \<open>w_db v = w_db w\<close> \<open>env_of v = env_of w\<close> \<open>w_sent v = w_sent w\<close>
                  in \<open>simp_all add: post_of_def sql_after_reply_def\<close>)
          qed
        qed
      qed
    qed
  qed
qed

lemma delivery_attempt_step:
  assumes "delivery_attempt L dm did w = (res, v)"
  shows "attempted L dm did w res v"
proof (cases res)
  case (Inl e)
  with wp_Inl [OF delivery_attempt_attempted] assms show ?thesis by blast
next
  case (Inr x)
  with wp_Inr [OF delivery_attempt_attempted] assms show ?thesis by blast
qed

lemma find_update_pending:
  assumes "\<And>r. del_id (f r) = del_id r" and "update_pending did f g d = Inr (u, d')"
  shows "find (\<lambda>r. del_id r = did) (deliveries d') =
    map_option (\<lambda>r. if del_status r = ''pending'' then (f r)\<lparr>del_updated := g_now g\<rparr> else r)
      (find (\<lambda>r. del_id r = did) (deliveries d))"
proof -
  have "find (\<lambda>r. del_id r = did) (deliveries d') =
    map_option (\<lambda>r. if del_id r = did \<and> del_status r = ''pending'' then (f r)\<lparr>del_updated := g_now g\<rparr> else r)
      (find (\<lambda>r. del_id r = did) (deliveries d))"
    using assms(2) unfolding update_pending_def by (auto simp: find_update_where assms(1))
  also have "\<dots> = map_option (\<lambda>r. if del_status r = ''pending'' then (f r)\<lparr>del_updated := g_now g\<rparr> else r)
      (find (\<lambda>r. del_id r = did) (deliveries d))"
    by (rule option.map_cong) (auto dest: find_Some_iff_in)
  finally show ?thesis .
qed

lemma target_find: "sql_delivery_target did d = Some (r, t) \<Longrightarrow> find (\<lambda>r. del_id r = did) (deliveries d) = Some r"
  by (auto simp: sql_delivery_target_def split: option.splits)

definition same_job :: "delivery \<Rightarrow> delivery \<Rightarrow> bool" where
  "same_job r r' \<longleftrightarrow> del_id r' = del_id r \<and> del_tenant r' = del_tenant r \<and> del_url r' = del_url r \<and>
     del_payload r' = del_payload r \<and> del_max r' = del_max r"

lemma same_job_max: "same_job r r' \<Longrightarrow> max_attempts dm r' = max_attempts dm r"
  by (simp add: same_job_def max_attempts_def)

lemma after_reply_row:
  assumes "sql_delivery_target did d = Some (r, t)" and "del_status r = ''pending''"
    and "sql_after_reply dm did r reply g d = Inr ((), d')"
  shows "\<exists>r'. sql_delivery_target did d' = Some (r', t) \<and> same_job r r' \<and>
    del_attempts r' = (if delivered reply then del_attempts r else del_attempts r + 1) \<and>
    del_status r' = (if delivered reply then ''succeeded''
      else if del_attempts r + 1 \<ge> max_attempts dm r then ''dlq'' else ''pending'')"
proof -
  have f: "find (\<lambda>r. del_id r = did) (deliveries d) = Some r" using target_find [OF assms(1)] .
  have ten: "tenants d' = tenants d"
    using assms(3) by (auto simp: sql_after_reply_def sql_delivered_def sql_attempt_failed_def update_pending_def split: if_splits)
  have t: "find (\<lambda>t. ten_id t = del_tenant r) (tenants d) = Some t"
    using assms(1) f by (auto simp: sql_delivery_target_def)
  show ?thesis
  proof (cases "delivered reply")
    case True
    with assms(3) have u: "update_pending did (\<lambda>r. r\<lparr>del_status := ''succeeded''\<rparr>) g d = Inr ((), d')"
      by (simp add: sql_after_reply_def sql_delivered_def)
    have "find (\<lambda>r. del_id r = did) (deliveries d') =
        Some (r\<lparr>del_status := ''succeeded'', del_updated := g_now g\<rparr>)"
      by (subst find_update_pending [OF _ u]) (simp_all add: f assms(2))
    then show ?thesis using True t by (simp add: sql_delivery_target_def ten same_job_def)
  next
    case False
    let ?st = "if del_attempts r + 1 \<ge> max_attempts dm r then ''dlq'' else ''pending''"
    from False assms(3) have u: "update_pending did (\<lambda>x. x\<lparr>del_attempts := del_attempts r + 1,
        del_error := Some (reply_error reply), del_status := ?st\<rparr>) g d = Inr ((), d')"
      by (simp add: sql_after_reply_def sql_attempt_failed_def)
    have "find (\<lambda>r. del_id r = did) (deliveries d') =
        Some (r\<lparr>del_attempts := del_attempts r + 1, del_error := Some (reply_error reply),
          del_status := ?st, del_updated := g_now g\<rparr>)"
      by (subst find_update_pending [OF _ u]) (simp_all add: f assms(2))
    then show ?thesis using False t by (simp add: sql_delivery_target_def ten same_job_def)
  qed
qed

text \<open>Only a recorded failure is followed by another turn, and it has used up an attempt.\<close>

lemma delivery_attempt_again:
  assumes "delivery_attempt L dm did w = (Inr (Some n), v)"
  shows "\<exists>r r' t. sql_delivery_target did (w_db w) = Some (r, t) \<and> sql_delivery_target did (w_db v) = Some (r', t) \<and>
    same_job r r' \<and> del_status r' = ''pending'' \<and> del_attempts r' = del_attempts r + 1 \<and>
    del_attempts r' < max_attempts dm r \<and> n = del_attempts r'"
proof (rule attempted_again [OF delivery_attempt_step [OF assms]], goal_cases)
  case (2 r t secret p g)
  let ?reply = "w_merchant w (length (w_sent w))"
  have n: "\<not> delivered ?reply" "del_attempts r + 1 < max_attempts dm r" "n = del_attempts r + 1"
    using 2(9) by (auto split: if_splits)
  from after_reply_row [OF 2(1,3,8)] n 2(1) show ?case by auto
qed blast

lemma attempts_left_target:
  "sql_delivery_target did d = Some (r, t) \<Longrightarrow> attempts_left dm did d = nat (max_attempts dm r - del_attempts r)"
  by (simp add: attempts_left_def target_find)

lemma attempts_left_decreases:
  assumes "delivery_attempt L dm did w = (Inr (Some n), v)"
  shows "attempts_left dm did (w_db v) < attempts_left dm did (w_db w)"
proof -
  obtain r r' t where *: "sql_delivery_target did (w_db w) = Some (r, t)"
    "sql_delivery_target did (w_db v) = Some (r', t)" "same_job r r'"
    "del_attempts r' = del_attempts r + 1" "del_attempts r' < max_attempts dm r"
    using delivery_attempt_again [OF assms] by blast
  then show ?thesis by (simp add: attempts_left_target same_job_max)
qed

lemma wait_backoff_db: "wait_backoff n v = (r, x) \<Longrightarrow> w_db x = w_db v \<and> w_sent x = w_sent v \<and>
    w_merchant x = w_merchant v \<and> w_queue x = w_queue v \<and> w_deadline x = w_deadline v \<and> quiet x = quiet v"
  by (auto simp: wait_backoff_def quiet_def split: option.splits if_splits)

section \<open>ProcessDelivery\<close>

function process_delivery :: "lib \<Rightarrow> int \<Rightarrow> uuid \<Rightarrow> world \<Rightarrow> (err + unit) \<times> world" where
  "process_delivery L default_max did w =
     (case delivery_attempt L default_max did w of
        (res, v) \<Rightarrow>
          (case res of
             Inl e \<Rightarrow> (Inl e, v)
           | Inr None \<Rightarrow> (Inr (), v)
           | Inr (Some n) \<Rightarrow>
               (case wait_backoff n v of
                  (r, x) \<Rightarrow>
                    (case r of
                       Inl e \<Rightarrow> (Inl e, x)
                     | Inr u \<Rightarrow> process_delivery L default_max did x))))"
  by pat_completeness auto

termination
  by (relation "measure (\<lambda>(L, dm, did, w). attempts_left dm did (w_db w))")
    (auto dest!: attempts_left_decreases [OF sym] dest: wait_backoff_db [OF sym])

declare process_delivery.simps [simp del]

section \<open>The posts of a call\<close>

lemma attempted_posts:
  assumes "attempted L dm did w res v"
  shows "w_sent v = w_sent w \<or>
    (\<exists>r t secret p. w_sent v = w_sent w @ [p] \<and> sql_delivery_target did (w_db w) = Some (r, t) \<and>
       ten_webhook_secret t = Some secret \<and> del_status r = ''pending'' \<and>
       del_attempts r < max_attempts dm r \<and> post_of L r secret p)"
  using assms by cases blast+

lemma post_of_same: "same_job r r' \<Longrightarrow> post_of L r' secret p \<Longrightarrow> post_of L r secret p"
  by (auto simp: same_job_def post_of_def)

definition signed_posts :: "lib \<Rightarrow> uuid \<Rightarrow> db \<Rightarrow> posted list \<Rightarrow> bool" where
  "signed_posts L did d ps \<longleftrightarrow>
     (\<forall>p \<in> set ps. \<exists>r t secret. sql_delivery_target did d = Some (r, t) \<and>
        ten_webhook_secret t = Some secret \<and> del_status r = ''pending'' \<and> post_of L r secret p)"

lemma process_posts:
  "process_delivery L dm did w = (res, v) \<Longrightarrow>
   \<exists>ps. w_sent v = w_sent w @ ps \<and> length ps \<le> attempts_left dm did (w_db w) \<and> signed_posts L did (w_db w) ps"
proof (induction L dm did w arbitrary: res v rule: process_delivery.induct)
  case (1 L dm did w)
  obtain r1 v1 where at: "delivery_attempt L dm did w = (r1, v1)" by (cases "delivery_attempt L dm did w")
  have one: "\<exists>ps. w_sent v1 = w_sent w @ ps \<and> length ps \<le> 1 \<and> length ps \<le> attempts_left dm did (w_db w) \<and>
      signed_posts L did (w_db w) ps"
    using attempted_posts [OF delivery_attempt_step [OF at]]
    by (elim disjE exE conjE)
      (auto simp: signed_posts_def attempts_left_target intro!: exI [of _ "[]"] simp: nat_le_iff)
  show ?case
  proof (cases "\<exists>n. r1 = Inr (Some n)")
    case False
    then have "v = v1"
      using 1(2) at by (subst (asm) process_delivery.simps) (auto split: sum.splits option.splits)
    with one show ?thesis by auto
  next
    case True
    then obtain n where n: "r1 = Inr (Some n)" by blast
    obtain r2 v2 where wt: "wait_backoff n v1 = (r2, v2)" by (cases "wait_backoff n v1")
    note same = wait_backoff_db [OF wt]
    show ?thesis
    proof (cases r2)
      case (Inl e)
      then have "v = v2" using 1(2) at n wt by (subst (asm) process_delivery.simps) simp
      with one same show ?thesis by auto
    next
      case (Inr u)
      have run: "process_delivery L dm did v2 = (res, v)"
        using 1(2) at n wt Inr by (subst (asm) process_delivery.simps) simp
      obtain qs where qs: "w_sent v = w_sent v2 @ qs" "length qs \<le> attempts_left dm did (w_db v2)"
          "signed_posts L did (w_db v2) qs"
        using 1(1) [OF at [symmetric] n refl wt [symmetric] Inr run] by blast
      obtain ps where ps: "w_sent v1 = w_sent w @ ps" "length ps \<le> 1" "signed_posts L did (w_db w) ps"
        using one by blast
      have less: "attempts_left dm did (w_db v1) < attempts_left dm did (w_db w)"
        using attempts_left_decreases at n by blast
      obtain r r' t where rr: "sql_delivery_target did (w_db w) = Some (r, t)"
          "sql_delivery_target did (w_db v1) = Some (r', t)" "same_job r r'"
        using delivery_attempt_again [OF at [unfolded n]] by blast
      have "del_status r = ''pending''"
        using delivery_attempt_step [OF at [unfolded n]] rr(1) by cases auto
      with qs(3) rr have "signed_posts L did (w_db w) qs"
        using post_of_same same by (fastforce simp: signed_posts_def)
      then have "signed_posts L did (w_db w) (ps @ qs)" using ps(3) by (auto simp: signed_posts_def)
      moreover have "length (ps @ qs) \<le> attempts_left dm did (w_db w)"
        using qs(2) ps(2) less same by simp
      ultimately show ?thesis using qs(1) ps(1) same by (metis append_assoc)
    qed
  qed
qed

text \<open>
  C27: whatever fails, \<open>ProcessDelivery\<close> ends, sends at most as many posts as the row has
  attempts left, and every post goes to the row's address with the row's payload and the HMAC
  of its own timestamp and body under the tenant's secret.
\<close>

theorem process_delivery_posts:
  "\<exists>ps. w_sent (snd (process_delivery L dm did w)) = w_sent w @ ps \<and>
     length ps \<le> attempts_left dm did (w_db w) \<and> signed_posts L did (w_db w) ps"
  using process_posts [OF surjective_pairing] .

section \<open>Without failures\<close>

text \<open>A delivery that can be posted.\<close>

definition postable :: "lib \<Rightarrow> uuid \<Rightarrow> db \<Rightarrow> delivery \<Rightarrow> bool" where
  "postable L did d r \<longleftrightarrow>
     (\<exists>t secret. sql_delivery_target did d = Some (r, t) \<and> ten_webhook_secret t = Some secret \<and> secret \<noteq> []) \<and>
     del_status r = ''pending'' \<and> l_url_ok L (del_url r)"

text \<open>The first of the next \<open>k\<close> answers that is in the 200s.\<close>

fun first_delivered :: "(nat \<Rightarrow> reply) \<Rightarrow> nat \<Rightarrow> nat \<Rightarrow> nat option" where
  "first_delivered m s 0 = None"
| "first_delivered m s (Suc k) =
     (if delivered (m s) then Some 0 else map_option Suc (first_delivered m (Suc s) k))"

lemma after_reply_total: "\<exists>d'. sql_after_reply dm did r reply g d = Inr ((), d')"
  by (simp add: sql_after_reply_def sql_delivered_def sql_attempt_failed_def update_pending_def)

lemma delivery_attempt_quiet:
  assumes "quiet w" and "postable L did (w_db w) r" and "del_attempts r < max_attempts dm r"
  shows "\<exists>v. delivery_attempt L dm did w =
     (Inr (if delivered (w_merchant w (length (w_sent w))) \<or> del_attempts r + 1 \<ge> max_attempts dm r
           then None else Some (del_attempts r + 1)), v) \<and> quiet v \<and> env_of v = env_of w \<and>
     length (w_sent v) = Suc (length (w_sent w)) \<and>
     (\<exists>r' t. sql_delivery_target did (w_db v) = Some (r', t) \<and> same_job r r' \<and>
      del_attempts r' = (if delivered (w_merchant w (length (w_sent w))) then del_attempts r else del_attempts r + 1) \<and>
      del_status r' = (if delivered (w_merchant w (length (w_sent w))) then ''succeeded''
        else if del_attempts r + 1 \<ge> max_attempts dm r then ''dlq'' else ''pending'') \<and>
      (del_status r' = ''pending'' \<longrightarrow> postable L did (w_db v) r'))"
proof -
  obtain t secret where t: "sql_delivery_target did (w_db w) = Some (r, t)"
      "ten_webhook_secret t = Some secret" "secret \<noteq> []" "del_status r = ''pending''" "l_url_ok L (del_url r)"
    using assms(2) by (auto simp: postable_def)
  let ?rep = "w_merchant w (length (w_sent w))"
  let ?p = "\<lparr>post_url = del_url r, post_timestamp = format_int (w_now w div 1000000),
     post_signature = sign L secret (format_int (w_now w div 1000000)) (l_jsonb_text L (del_payload r)),
     post_body = l_jsonb_text L (del_payload r)\<rparr>"
  let ?w = "(spend w)\<lparr>w_sent := w_sent w @ [?p]\<rparr>"
  obtain d' where d': "sql_after_reply dm did r ?rep (gen_of ?w) (w_db w) = Inr ((), d')"
    using after_reply_total by blast
  let ?v = "put_db Pool d' (spend ?w)"
  have run: "delivery_attempt L dm did w =
     (Inr (if delivered ?rep \<or> del_attempts r + 1 \<ge> max_attempts dm r
           then None else Some (del_attempts r + 1)), ?v)"
    unfolding delivery_attempt_def
    using assms(1,3) t d'
    by (auto simp: op_then_def op_ok_def query_quiet exec_quiet http_post_def op_get_def Let_def
        sql_after_reply_def not_le split: if_splits)
  obtain r' where r': "sql_delivery_target did d' = Some (r', t)" "same_job r r'"
    "del_attempts r' = (if delivered ?rep then del_attempts r else del_attempts r + 1)"
    "del_status r' = (if delivered ?rep then ''succeeded''
      else if del_attempts r + 1 \<ge> max_attempts dm r then ''dlq'' else ''pending'')"
    using after_reply_row [OF t(1,4) d'] by blast
  have "del_status r' = ''pending'' \<longrightarrow> postable L did d' r'"
    using r'(1,2) t by (auto simp: postable_def same_job_def)
  with r' run assms(1) show ?thesis
    by (intro exI [of _ ?v] conjI) (auto simp: quiet_def)
qed

definition outcome_of :: "int \<Rightarrow> delivery \<Rightarrow> (nat \<Rightarrow> reply) \<Rightarrow> nat \<Rightarrow> nat option" where
  "outcome_of dm r m s = first_delivered m s (nat (max_attempts dm r - del_attempts r))"

lemma process_delivery_outcome_aux:
  "quiet w \<Longrightarrow> w_deadline w = None \<Longrightarrow> postable L did (w_db w) r \<Longrightarrow> del_attempts r < max_attempts dm r \<Longrightarrow>
   \<exists>v r' t. process_delivery L dm did w = (Inr (), v) \<and> sql_delivery_target did (w_db v) = Some (r', t) \<and> same_job r r' \<and>
     (case outcome_of dm r (w_merchant w) (length (w_sent w)) of
        Some j \<Rightarrow> del_status r' = ''succeeded'' \<and> del_attempts r' = del_attempts r + int j \<and>
          length (w_sent v) = length (w_sent w) + Suc j
      | None \<Rightarrow> del_status r' = ''dlq'' \<and> del_attempts r' = max_attempts dm r \<and>
          length (w_sent v) = length (w_sent w) + nat (max_attempts dm r - del_attempts r))"
proof (induction "nat (max_attempts dm r - del_attempts r)" arbitrary: w r)
  case 0
  then show ?case by simp
next
  case (Suc k)
  let ?rep = "w_merchant w (length (w_sent w))"
  let ?last = "del_attempts r + 1 \<ge> max_attempts dm r"
  obtain v r1 t where v: "delivery_attempt L dm did w =
     (Inr (if delivered ?rep \<or> ?last then None else Some (del_attempts r + 1)), v)" "quiet v" "env_of v = env_of w"
     "length (w_sent v) = Suc (length (w_sent w))"
    and r1: "sql_delivery_target did (w_db v) = Some (r1, t)" "same_job r r1"
      "del_attempts r1 = (if delivered ?rep then del_attempts r else del_attempts r + 1)"
      "del_status r1 = (if delivered ?rep then ''succeeded'' else if ?last then ''dlq'' else ''pending'')"
      "del_status r1 = ''pending'' \<longrightarrow> postable L did (w_db v) r1"
    using delivery_attempt_quiet [OF Suc.prems(1,3,4)] by blast
  show ?case
  proof (cases "delivered ?rep \<or> ?last")
    case True
    have "process_delivery L dm did w = (Inr (), v)"
      using v(1) True by (subst process_delivery.simps) simp
    then show ?thesis
    proof (cases "delivered ?rep")
      case True
      with \<open>process_delivery L dm did w = (Inr (), v)\<close> r1 v(4) show ?thesis
        unfolding outcome_of_def Suc.hyps(2) [symmetric] by auto
    next
      case False
      with \<open>delivered ?rep \<or> ?last\<close> have last: "?last" by simp
      then have "nat (max_attempts dm r - del_attempts r) = 1" "max_attempts dm r = del_attempts r + 1"
        using Suc.prems(4) by simp_all
      with \<open>process_delivery L dm did w = (Inr (), v)\<close> r1 v(4) False show ?thesis
        unfolding outcome_of_def by auto
    qed
  next
    case False
    let ?n = "del_attempts r + 1"
    obtain x where x: "wait_backoff ?n v = (Inr (), x)"
      using v(3) Suc.prems(2) by (simp add: wait_backoff_def env_of_def)
    note same = wait_backoff_db [OF x]
    have step: "process_delivery L dm did w = process_delivery L dm did x"
      using v(1) x False by (subst process_delivery.simps) simp
    have r1': "del_attempts r1 = ?n" "del_status r1 = ''pending''" "max_attempts dm r1 = max_attempts dm r"
      using r1 False same_job_max [OF r1(2)] by simp_all
    have m: "w_merchant x = w_merchant w" "w_deadline x = None"
      using same v(3) Suc.prems(2) by (simp_all add: env_of_def)
    have k: "k = nat (max_attempts dm r1 - del_attempts r1)" "del_attempts r1 < max_attempts dm r1"
      using Suc.hyps(2) r1' False by simp_all
    have "postable L did (w_db x) r1" "quiet x" using r1(5) r1'(2) same v(2) by simp_all
    from Suc.hyps(1) [OF k(1) this(2) m(2) this(1) k(2)] obtain v' r' t' where
      run: "process_delivery L dm did x = (Inr (), v')" and tgt: "sql_delivery_target did (w_db v') = Some (r', t')" "same_job r1 r'"
      and out: "(case outcome_of dm r1 (w_merchant x) (length (w_sent x)) of
        Some j \<Rightarrow> del_status r' = ''succeeded'' \<and> del_attempts r' = del_attempts r1 + int j \<and>
          length (w_sent v') = length (w_sent x) + Suc j
      | None \<Rightarrow> del_status r' = ''dlq'' \<and> del_attempts r' = max_attempts dm r1 \<and>
          length (w_sent v') = length (w_sent x) + nat (max_attempts dm r1 - del_attempts r1))" by blast
    have "same_job r r'" using r1(2) tgt(2) by (simp add: same_job_def)
    moreover have "outcome_of dm r (w_merchant w) (length (w_sent w)) =
        map_option Suc (outcome_of dm r1 (w_merchant x) (length (w_sent x)))"
      using False same v(4) m(1) unfolding outcome_of_def k(1) [symmetric] Suc.hyps(2) [symmetric] by simp
    ultimately show ?thesis
      using run tgt(1) out step r1' same v(4) k Suc.hyps(2)
      by (intro exI [of _ v'] exI [of _ r'] exI [of _ t']) (auto split: option.splits)
  qed
qed


definition sample_delivery :: delivery where
  "sample_delivery = \<lparr>del_id = 11, del_tenant = 1, del_payment = Some 7, del_refund = None,
     del_event = event_payment_settled, del_merchant_key = ''k'', del_url = ''https://m.example/h'',
     del_payload = JObj [], del_status = ''pending'', del_attempts = 0, del_max = 5, del_error = None,
     del_next = 0, del_created = 0, del_updated = 0\<rparr>"

definition ref_delivery_world :: "(nat \<Rightarrow> reply) \<Rightarrow> world" where
  "ref_delivery_world m = (ref_world (ref_db\<lparr>deliveries := [sample_delivery]\<rparr>) [])\<lparr>w_merchant := m\<rparr>"

lemma ref_delivery_facts:
  "quiet (ref_delivery_world m)" "w_deadline (ref_delivery_world m) = None" "w_sent (ref_delivery_world m) = []"
  "w_merchant (ref_delivery_world m) = m" "postable ref_lib 11 (w_db (ref_delivery_world m)) sample_delivery"
  "del_attempts sample_delivery = 0" "max_attempts dm sample_delivery = 5" "del_max sample_delivery = 5"
  by (simp_all add: ref_delivery_world_def quiet_def ref_world_def postable_def sql_delivery_target_def
      sample_delivery_def ref_db_def sample_tenant_def ref_lib_def max_attempts_def)


text \<open>
  A delivery that is not pending any more is neither posted nor changed, whatever fails; a
  redelivered job is harmless.
\<close>

theorem process_delivery_settled:
  assumes "sql_delivery_target did (w_db w) = Some (r, t)" and "del_status r \<noteq> ''pending''"
    and "process_delivery L dm did w = (res, v)"
  shows "w_db v = w_db w \<and> w_sent v = w_sent w"
proof -
  obtain r1 v1 where at: "delivery_attempt L dm did w = (r1, v1)" by (cases "delivery_attempt L dm did w")
  have "w_db v1 = w_db w \<and> w_sent v1 = w_sent w \<and> (\<forall>n. r1 \<noteq> Inr (Some n))"
    using delivery_attempt_step [OF at] assms(1,2) by cases auto
  with assms(3) at show ?thesis
    by (subst (asm) process_delivery.simps) (auto split: sum.splits option.splits)
qed

theorem process_delivery_settled_witness:
  "\<exists>res v. process_delivery ref_lib 5 11 (ref_world (ref_db\<lparr>deliveries := [sample_delivery\<lparr>del_status := ''dlq''\<rparr>]\<rparr>) []) = (res, v) \<and>
     w_sent v = []"
proof -
  let ?w = "ref_world (ref_db\<lparr>deliveries := [sample_delivery\<lparr>del_status := ''dlq''\<rparr>]\<rparr>) []"
  have "sql_delivery_target 11 (w_db ?w) = Some (sample_delivery\<lparr>del_status := ''dlq''\<rparr>, sample_tenant 1)"
    by (simp add: sql_delivery_target_def sample_delivery_def ref_db_def sample_tenant_def)
  moreover obtain res v where run: "process_delivery ref_lib 5 11 ?w = (res, v)"
    by (cases "process_delivery ref_lib 5 11 ?w")
  ultimately have "w_sent v = []" using process_delivery_settled [of 11 ?w, OF _ _ run] by simp
  with run show ?thesis by blast
qed

text \<open>
  When the tenant has no signing secret (a NULL), the call fails on every job of its deliveries
  and leaves them pending, without posting them and without giving them up.
\<close>

theorem process_delivery_no_secret:
  assumes "quiet w" and "sql_delivery_target did (w_db w) = Some (r, t)" and "ten_webhook_secret t = None"
  shows "\<exists>v. process_delivery L dm did w = (Inl ErrDB, v) \<and> w_db v = w_db w \<and> w_sent v = w_sent w"
  using assms
  by (subst process_delivery.simps)
    (simp add: delivery_attempt_def op_then_def query_quiet op_err_def)

theorem process_delivery_no_secret_witness:
  "\<exists>v. process_delivery ref_lib 5 11 (ref_world (ref_db\<lparr>tenants := [(sample_tenant 1)\<lparr>ten_webhook_secret := None\<rparr>],
     deliveries := [sample_delivery]\<rparr>) []) = (Inl ErrDB, v) \<and> map del_status (deliveries (w_db v)) = [''pending'']"
proof -
  let ?t = "(sample_tenant 1)\<lparr>ten_webhook_secret := None\<rparr>"
  let ?w = "ref_world (ref_db\<lparr>tenants := [?t], deliveries := [sample_delivery]\<rparr>) []"
  have "sql_delivery_target 11 (w_db ?w) = Some (sample_delivery, ?t)"
    by (simp add: sql_delivery_target_def sample_delivery_def sample_tenant_def)
  from process_delivery_no_secret [OF _ this, of ref_lib 5] show ?thesis
    by (auto simp: sample_delivery_def sample_tenant_def)
qed

lemma delivery_attempt_default:
  assumes "sql_delivery_target did (w_db w) = Some (r, t)" and "0 < del_max r"
  shows "delivery_attempt L dm did w = delivery_attempt L dm' did w"
proof -
  have m: "max_attempts dm r = max_attempts dm' r" using assms(2) by (simp add: max_attempts_def)
  obtain res v where q: "query Pool (sql_delivery_target did) w = (res, v)"
    by (cases "query Pool (sql_delivery_target did) w")
  show ?thesis
  proof (cases res)
    case (Inl e)
    then show ?thesis unfolding delivery_attempt_def by (simp only: op_then_apply_Inl q)
  next
    case (Inr x)
    then have "x = Some (r, t)"
      using q assms(1) by (auto simp: query_def exec_def split: if_splits)
    with Inr show ?thesis
      unfolding delivery_attempt_def by (simp only: op_then_apply_Inr q option.case prod.case m)
  qed
qed

lemma process_delivery_default_aux:
  "sql_delivery_target did (w_db w) = Some (r, t) \<Longrightarrow> 0 < del_max r \<Longrightarrow>
   process_delivery L dm did w = process_delivery L dm' did w"
proof (induction L dm did w arbitrary: r rule: process_delivery.induct)
  case (1 L dm did w)
  note same = delivery_attempt_default [OF 1(2,3), of L dm dm']
  obtain r1 v where at: "delivery_attempt L dm did w = (r1, v)" by (cases "delivery_attempt L dm did w")
  show ?case
  proof (cases "\<exists>n x. r1 = Inr (Some n) \<and> wait_backoff n v = (Inr (), x)")
    case False
    then show ?thesis
      using at same by (subst (1 2) process_delivery.simps) (auto split: sum.splits option.splits prod.splits)
  next
    case True
    then obtain n x where n: "r1 = Inr (Some n)" "wait_backoff n v = (Inr (), x)" by blast
    obtain r2 where r2: "sql_delivery_target did (w_db v) = Some (r2, t)" "same_job r r2"
      using delivery_attempt_again [OF at [unfolded n(1)]] 1(2) by auto
    have "process_delivery L dm did x = process_delivery L dm' did x"
      by (rule 1(1) [OF at [symmetric] n(1) refl n(2) [symmetric] refl, of r2])
        (use r2 1(3) wait_backoff_db [OF n(2)] in \<open>simp_all add: same_job_def\<close>)
    then show ?thesis using at same n by (subst (1 2) process_delivery.simps) simp
  qed
qed

text \<open>
  C29: the worker's configured number of attempts has no effect on a row that has its own, as every
  row the program inserts has.
\<close>

theorem process_delivery_default_ignored:
  assumes "sql_delivery_target did (w_db w) = Some (r, t)" and "0 < del_max r"
  shows "process_delivery L dm did w = process_delivery L dm' did w"
  using assms by (rule process_delivery_default_aux)

theorem process_delivery_default_ignored_witness:
  "process_delivery ref_lib 1 11 (ref_delivery_world (\<lambda>_. Status 500)) =
   process_delivery ref_lib 9 11 (ref_delivery_world (\<lambda>_. Status 500))"
proof -
  obtain t where "sql_delivery_target 11 (w_db (ref_delivery_world (\<lambda>_. Status 500))) = Some (sample_delivery, t)"
    using ref_delivery_facts(5) [of "\<lambda>_. Status 500"] by (auto simp: postable_def)
  then show ?thesis by (rule process_delivery_default_ignored) (simp add: ref_delivery_facts)
qed


section \<open>One row per event\<close>

lemma sql_insert_delivery_None:
  "sql_insert_delivery n g d = Inr (None, d') \<Longrightarrow> d' = d \<and> (nd_tenant n, nd_key n) \<in> del_key ` set (deliveries d)"
  by (rule del_ins.ins_None)

lemma sql_insert_delivery_Some:
  "sql_insert_delivery n g d = Inr (Some r, d') \<Longrightarrow>
   (nd_tenant n, nd_key n) \<notin> del_key ` set (deliveries d) \<and> del_key r = (nd_tenant n, nd_key n) \<and>
   del_id r \<notin> del_id ` set (deliveries d) \<and> del_status r = ''pending'' \<and> del_attempts r = 0 \<and> del_max r = 5 \<and>
   del_payment r = Some (nd_payment n) \<and> del_refund r = nd_refund n \<and> del_event r = nd_event n \<and>
   del_url r = nd_url n \<and> del_payload r = nd_payload n \<and> d' = d\<lparr>deliveries := deliveries d @ [r]\<rparr>"
  by (auto simp: sql_insert_delivery_def del_key_def Let_def split: if_splits option.splits)

text \<open>The row of a new delivery.\<close>

definition delivery_row :: "new_delivery \<Rightarrow> delivery \<Rightarrow> bool" where
  "delivery_row n r \<longleftrightarrow> del_key r = (nd_tenant n, nd_key n) \<and> del_status r = ''pending'' \<and>
     del_attempts r = 0 \<and> del_max r = 5 \<and> del_payment r = Some (nd_payment n) \<and> del_refund r = nd_refund n \<and>
     del_event r = nd_event n \<and> del_url r = nd_url n \<and> del_payload r = nd_payload n"

definition delivery_added :: "new_delivery \<Rightarrow> delivery \<Rightarrow> db \<Rightarrow> db \<Rightarrow> bool" where
  "delivery_added n r d d' \<longleftrightarrow> delivery_row n r \<and> (nd_tenant n, nd_key n) \<notin> del_key ` set (deliveries d) \<and>
     del_id r \<notin> del_id ` set (deliveries d) \<and> d' = d\<lparr>deliveries := deliveries d @ [r]\<rparr>"

lemma publish_webhook_wp:
  assumes "q = Redis new_redis \<or> q = AzureServiceBus"
  shows "wp (publish_webhook_delivery L (Broker q) u)
      (\<lambda>_ v. w_db v = w_db w \<and> waiting q v = (waiting q w)(WebhookJob := waiting q w WebhookJob @ [l_uuid_string L u]))
      (\<lambda>_ v. w_db v = w_db w) w"
  using assms
proof
  assume q: "q = Redis new_redis"
  show ?thesis unfolding q
    by (rule wp_mono [OF redis_broker.publish_adds [of L WebhookJob u w, unfolded publish_job.simps]]) simp_all
next
  assume q: "q = AzureServiceBus"
  show ?thesis unfolding q
    by (rule wp_mono [OF bus_broker.publish_adds [of L WebhookJob u w, unfolded publish_job.simps]]) simp_all
qed

lemma env_waiting: "env_of v = env_of w \<Longrightarrow> waiting q v = waiting q w"
  by (rule ext, cases q) (simp_all add: env_of_def)

lemma waiting_tx [simp]: "waiting q (w\<lparr>w_tx := d\<rparr>) = waiting q w"
  by (rule env_waiting) simp

text \<open>
  Whichever call fails: nothing, or one new row; a success with a new row has published it.
\<close>

lemma enqueue_delivery_wp:
  assumes "q = Redis new_redis \<or> q = AzureServiceBus"
  shows "wp (enqueue_delivery L (Broker q) n)
    (\<lambda>_ v. (w_db v = w_db w \<and> waiting q v = waiting q w \<and> (nd_tenant n, nd_key n) \<in> del_key ` set (deliveries (w_db w))) \<or>
       (\<exists>r. delivery_added n r (w_db w) (w_db v) \<and>
          waiting q v = (waiting q w)(WebhookJob := waiting q w WebhookJob @ [l_uuid_string L (del_id r)])))
    (\<lambda>_ v. w_db v = w_db w \<or> (\<exists>r. delivery_added n r (w_db w) (w_db v))) w"
  unfolding enqueue_delivery_def
proof (rule wp_with_txI, simp, rule wp_thenI, rule wp_exec_TxI, simp, goal_cases)
  case (1 v x d v1)
  note w = 1
  show ?case
  proof (rule wp_optionI, goal_cases)
    case 1
    with w sql_insert_delivery_None [of n "gen_of v" "w_db w" d] show ?case
      by (intro wp_commitI) (auto dest!: env_waiting [where q = q])
  next
    case (2 row)
    then have "delivery_added n row (w_db w) d"
      using w sql_insert_delivery_Some [of n "gen_of v" "w_db w" row d]
      by (simp add: delivery_added_def delivery_row_def)
    then show ?case
      using w
      apply (intro wp_thenI wp_commitI)
      apply simp apply simp apply blast
      apply (rule wp_mono [OF publish_webhook_wp [OF assms]])
      apply (auto dest!: env_waiting [where q = q])
      done
  qed
qed

text \<open>Once the row is there, no call inserts or publishes again.\<close>

lemma enqueue_delivery_again:
  assumes "(nd_tenant n, nd_key n) \<in> del_key ` set (deliveries (w_db w))"
  shows "wp (enqueue_delivery L pub n) (\<lambda>_ v. w_db v = w_db w \<and> w_queue v = w_queue w)
    (\<lambda>_ v. w_db v = w_db w \<and> w_queue v = w_queue w) w"
  unfolding enqueue_delivery_def
proof (rule wp_with_txI, goal_cases)
  case (1 e v)
  then show ?case by (simp add: env_of_def)
next
  case (2 v)
  then show ?case
  proof (intro wp_thenI wp_exec_TxI, goal_cases)
    case (1 e v1)
    then show ?case by (simp add: env_of_def)
  next
    case (2 x d v1)
    then have "x = None \<and> d = w_db w" 
      using sql_insert_delivery_None [of n "gen_of v" "w_db w" d] sql_insert_delivery_Some [of n "gen_of v" "w_db w" _ d] assms
      by (cases x) auto
    with 2 show ?case by (auto intro!: wp_commitI simp: env_of_def)
  qed
qed


lemma enqueue_delivery_quiet:
  assumes "quiet w" and "q = Redis new_redis \<or> q = AzureServiceBus"
    and "w_uuid w (w_gen w) \<notin> del_id ` set (deliveries (w_db w))"
    and "(nd_tenant n, nd_key n) \<notin> del_key ` set (deliveries (w_db w))"
    and "nd_tenant n \<in> ten_id ` set (tenants (w_db w))" and "nd_payment n \<in> pay_id ` set (payments (w_db w))"
    and "case nd_refund n of None \<Rightarrow> True | Some r \<Rightarrow> r \<in> ref_id ` set (refunds (w_db w))"
  shows "\<exists>v. enqueue_delivery L (Broker q) n w = (Inr (), v)"
proof -
  have pub: "\<exists>v. publish_webhook_delivery L (Broker q) u x = (Inr (), v)" if "quiet x" for u x
    using assms(2) redis_broker.publish_quiet [OF that, of L WebhookJob u]
      bus_broker.publish_quiet [OF that, of L WebhookJob u] by auto
  obtain r d where ins: "sql_insert_delivery n (gen_of (w\<lparr>w_tx := w_db w\<rparr>)) (w_db w) = Inr (Some r, d)"
    using assms(3-7) by (fastforce simp: sql_insert_delivery_def Let_def gen_of_def split: option.splits)
  let ?x = "(put_db Tx d (spend (w\<lparr>w_tx := w_db w\<rparr>)))\<lparr>w_db := d\<rparr>"
  obtain v where "publish_webhook_delivery L (Broker q) (del_id r) ?x = (Inr (), v)"
    using pub [of ?x] assms(1) by (auto simp: quiet_def)
  then show ?thesis
    using assms(1) ins
    by (simp add: enqueue_delivery_def with_tx_quiet op_then_def exec_quiet commit_quiet)
qed

lemma settled_payment_row:
  "sql_settled_payment pid d = Some (p, t) \<Longrightarrow> p \<in> set (payments d) \<and> pay_id p = pid \<and> pay_status p = ''succeeded'' \<and>
   t \<in> set (tenants d) \<and> ten_id t = pay_tenant p"
  by (auto simp: sql_settled_payment_def split: option.splits dest!: find_Some_iff_in)

text \<open>
  C30: the first notification of a settled payment whose tenant has a webhook inserts one pending
  delivery for it, with five attempts, and publishes its identifier after all waiting jobs.
\<close>

theorem enqueue_payment_fresh:
  assumes "quiet w" and "fresh_ids 2 w" and "q = Redis new_redis \<or> q = AzureServiceBus"
    and "sql_settled_payment pid (w_db w) = Some (p, t)" and "webhook_of t = Some (url, secret)"
    and "(pay_tenant p, ''payflow/evt/payment.settled/'' @ l_uuid_string L pid) \<notin> del_key ` set (deliveries (w_db w))"
  shows "\<exists>w' r. enqueue_payment_settled L (Broker q) pid w = (Inr (), w') \<and>
     delivery_added (payment_delivery L p url) r (w_db w) (w_db w') \<and>
     waiting q w' = (waiting q w)(WebhookJob := waiting q w WebhookJob @ [l_uuid_string L (del_id r)])"
proof -
  note row = settled_payment_row [OF assms(4)]
  let ?n = "payment_delivery L p url"
  have k: "(nd_tenant ?n, nd_key ?n) \<notin> del_key ` set (deliveries (w_db w))"
    using assms(6) row by (simp add: payment_delivery_def)
  have n: "nd_tenant ?n \<in> ten_id ` set (tenants (w_db w))" "nd_payment ?n \<in> pay_id ` set (payments (w_db w))"
    "nd_refund ?n = None"
    using row by (auto simp: payment_delivery_def) (metis imageI)
  have id: "w_uuid (spend w) (w_gen (spend w)) \<notin> del_id ` set (deliveries (w_db w))"
    using fresh_ids_use [OF assms(2), of 1] by (simp add: used_ids_def)
  have e: "enqueue_payment_settled L (Broker q) pid w = enqueue_delivery L (Broker q) ?n (spend w)"
    using assms(1,4,5) by (simp add: enqueue_payment_settled_def op_then_def query_quiet)
  obtain v where v: "enqueue_delivery L (Broker q) ?n (spend w) = (Inr (), v)"
    using enqueue_delivery_quiet [OF _ assms(3), of "spend w" ?n L] assms(1) id k n by auto
  have "waiting q (spend w) = waiting q w" by (rule env_waiting) simp
  with wp_Inr [OF enqueue_delivery_wp [OF assms(3)] v] v k show ?thesis unfolding e by auto
qed

lemma enqueue_payment_again:
  assumes "sql_settled_payment pid (w_db w) = Some (p, t)"
    and "(pay_tenant p, ''payflow/evt/payment.settled/'' @ l_uuid_string L pid) \<in> del_key ` set (deliveries (w_db w))"
  shows "wp (enqueue_payment_settled L pub pid) (\<lambda>_ v. w_db v = w_db w \<and> w_queue v = w_queue w)
    (\<lambda>_ v. w_db v = w_db w \<and> w_queue v = w_queue w) w"
  unfolding enqueue_payment_settled_def
proof (rule wp_thenI, rule wp_query_PoolI, goal_cases)
  case (1 e v)
  then show ?case by (simp add: env_of_def)
next
  case (2 v)
  have key: "(nd_tenant (payment_delivery L p url), nd_key (payment_delivery L p url)) \<in> del_key ` set (deliveries (w_db v))" for url
    using assms(2) settled_payment_row [OF assms(1)] 2 by (simp add: payment_delivery_def)
  show ?case
    unfolding assms(1) option.case prod.case
    using 2 enqueue_delivery_again [OF key, of L pub]
    by (auto intro!: wp_rules simp: env_of_def)
qed

text \<open>
  Once the delivery of a payment's event is in the table, no later call inserts or publishes
  anything, whatever fails.
\<close>

theorem enqueue_payment_once:
  assumes "sql_settled_payment pid (w_db w) = Some (p, t)"
    and "(pay_tenant p, ''payflow/evt/payment.settled/'' @ l_uuid_string L pid) \<in> del_key ` set (deliveries (w_db w))"
    and "enqueue_payment_settled L pub pid w = (r, w')"
  shows "w_db w' = w_db w \<and> w_queue w' = w_queue w"
proof (cases r)
  case (Inl e)
  with wp_Inl [OF enqueue_payment_again [OF assms(1,2)]] assms(3) show ?thesis by blast
next
  case (Inr u)
  with wp_Inr [OF enqueue_payment_again [OF assms(1,2)]] assms(3) show ?thesis by blast
qed

section \<open>Reading deliveries\<close>

record list_row =
  lr_id :: uuid
  lr_event :: string
  lr_status :: string
  lr_attempts :: int
  lr_max :: int
  lr_error :: string
  lr_created :: time

definition list_row_of :: "delivery \<Rightarrow> list_row" where
  "list_row_of r = \<lparr>lr_id = del_id r, lr_event = del_event r, lr_status = del_status r,
     lr_attempts = del_attempts r, lr_max = del_max r,
     lr_error = (case del_error r of None \<Rightarrow> [] | Some e \<Rightarrow> e), lr_created = del_created r\<rparr>"

text \<open>\<open>ORDER BY created\_at DESC\<close> leaves the order of rows of one instant open; here it is theirs in the table.\<close>

definition list_deliveries :: "uuid \<Rightarrow> string \<Rightarrow> int \<Rightarrow> list_row list action" where
  "list_deliveries tenant status limit =
     (let lim = (if limit \<le> 0 \<or> limit > 100 then 50 else limit) in
     query Pool (\<lambda>d. map list_row_of (take (nat lim) (sort_key (\<lambda>r. - del_created r)
       (filter (\<lambda>r. del_tenant r = tenant \<and> (status \<noteq> [] \<longrightarrow> del_status r = status)) (deliveries d))))))"

record delivery_view =
  dv_id :: uuid
  dv_tenant :: uuid
  dv_payment :: "string option"
  dv_refund :: "string option"
  dv_event :: string
  dv_key :: string
  dv_url :: string
  dv_payload :: "(string \<times> json) list"
  dv_status :: string
  dv_attempts :: int
  dv_max :: int
  dv_error :: string
  dv_created :: time
  dv_updated :: time

definition delivery_view_of :: "lib \<Rightarrow> delivery \<Rightarrow> delivery_view" where
  "delivery_view_of L r = \<lparr>dv_id = del_id r, dv_tenant = del_tenant r,
     dv_payment = map_option (l_uuid_string L) (del_payment r),
     dv_refund = map_option (l_uuid_string L) (del_refund r), dv_event = del_event r,
     dv_key = del_merchant_key r, dv_url = del_url r,
     dv_payload = (case del_payload r of JObj kvs \<Rightarrow> kvs | JNull \<Rightarrow> []
       | j \<Rightarrow> [(''raw'', JStr (l_jsonb_text L j))]),
     dv_status = del_status r, dv_attempts = del_attempts r, dv_max = del_max r,
     dv_error = (case del_error r of None \<Rightarrow> [] | Some e \<Rightarrow> e),
     dv_created = del_created r, dv_updated = del_updated r\<rparr>"

definition get_delivery :: "lib \<Rightarrow> uuid \<Rightarrow> uuid \<Rightarrow> delivery_view action" where
  "get_delivery L tenant did =
     op_then (query Pool (\<lambda>d. find (\<lambda>r. del_id r = did \<and> del_tenant r = tenant) (deliveries d)))
       (\<lambda>r. case r of None \<Rightarrow> op_err ErrNoRows | Some x \<Rightarrow> op_ok (delivery_view_of L x))"

lemma take_sorted_desc:
  fixes f :: "'a \<Rightarrow> int"
  shows "sorted_wrt (\<lambda>x y. f y \<le> f x) (take n (sort_key (\<lambda>r. - f r) xs))"
proof -
  have "sorted (map (\<lambda>r. - f r) (sort_key (\<lambda>r. - f r) xs))" by simp
  then have "sorted_wrt (\<lambda>x y. f y \<le> f x) (sort_key (\<lambda>r. - f r) xs)"
    by (simp add: sorted_map)
  then show ?thesis by (rule sorted_wrt_take)
qed

text \<open>
  A listing shows at most 100 rows, the newest first, all of them the tenant's and of the
  requested status.
\<close>

theorem list_deliveries_rows:
  "wp (list_deliveries tenant status limit)
     (\<lambda>rows v. w_db v = w_db w \<and> length rows \<le> 100 \<and> sorted_wrt (\<lambda>x y. lr_created y \<le> lr_created x) rows \<and>
        set rows \<subseteq> list_row_of ` {r \<in> set (deliveries (w_db w)). del_tenant r = tenant \<and> status \<in> {[], del_status r}})
     (\<lambda>_ v. w_db v = w_db w) w"
  unfolding list_deliveries_def Let_def
proof (rule wp_query_PoolI, simp, goal_cases)
  case (1 v)
  have s: "sorted_wrt (\<lambda>x y. lr_created y \<le> lr_created x) (map list_row_of (take n (sort_key (\<lambda>r. - del_created r) xs)))" for n xs
    unfolding sorted_wrt_map using take_sorted_desc [of del_created n xs] by (simp add: list_row_of_def)
  show ?case
    using 1 s by (auto intro!: imageI dest!: in_set_takeD)
qed

lemma get_delivery_wp:
  "wp (get_delivery L tenant did) (\<lambda>x v. w_db v = w_db w \<and> dv_tenant x = tenant \<and> dv_id x = did)
     (\<lambda>_ v. w_db v = w_db w) w"
  unfolding get_delivery_def
  by (intro wp_rules; (simp; fail)?) (auto dest: find_Some_iff_in simp: delivery_view_of_def)

section \<open>Samples\<close>

definition ref_settled_world :: "fault list \<Rightarrow> world" where
  "ref_settled_world fs = ref_world (ref_db\<lparr>payments := [
     \<lparr>pay_id = 7, pay_tenant = 1, pay_amount = 250, pay_currency = ''EUR'', pay_status = ''succeeded'',
      pay_key = ''k1'', pay_scope = ''payment:create'', pay_hash = ''h'', pay_created = 5, pay_updated = 5\<rparr>]\<rparr>) fs"

lemma ref_settled_row:
  "\<exists>p t. sql_settled_payment 7 (w_db (ref_settled_world fs)) = Some (p, t) \<and> pay_tenant p = 1 \<and>
     webhook_of t = Some (''https://m.example/h'', ''s3cret'')"
  by (simp add: ref_settled_world_def sql_settled_payment_def ref_db_def sample_tenant_def webhook_of_def)

theorem enqueue_payment_fresh_witness:
  "\<exists>w' r. enqueue_payment_settled ref_lib (Broker (Redis new_redis)) 7 (ref_settled_world []) = (Inr (), w') \<and>
     deliveries (w_db w') = [r] \<and> waiting (Redis new_redis) w' WebhookJob = [ref_uuid_string (del_id r)]"
proof -
  let ?w = "ref_settled_world []"
  obtain p t where row: "sql_settled_payment 7 (w_db ?w) = Some (p, t)" "pay_tenant p = 1"
    "webhook_of t = Some (''https://m.example/h'', ''s3cret'')" using ref_settled_row by blast
  have "fresh_ids 2 ?w" unfolding ref_settled_world_def
    by (rule ref_fresh) (simp_all add: ref_db_def sample_tenant_def empty_db_def used_ids_def)
  moreover have n: "deliveries (w_db ?w) = []" by (simp add: ref_settled_world_def ref_db_def empty_db_def)
  moreover have "quiet ?w" by (simp add: ref_settled_world_def)
  ultimately obtain w' r where "enqueue_payment_settled ref_lib (Broker (Redis new_redis)) 7 ?w = (Inr (), w')"
      "delivery_added (payment_delivery ref_lib p ''https://m.example/h'') r (w_db ?w) (w_db w')"
      "waiting (Redis new_redis) w' = (waiting (Redis new_redis) ?w)(WebhookJob := waiting (Redis new_redis) ?w WebhookJob @ [l_uuid_string ref_lib (del_id r)])"
    using enqueue_payment_fresh [OF _ _ _ row(1,3), of "Redis new_redis" ref_lib] by auto
  moreover have "waiting (Redis new_redis) ?w WebhookJob = []" by (simp add: ref_settled_world_def)
  ultimately show ?thesis using n by (auto simp: delivery_added_def ref_lib_def simp del: waiting.simps)
qed

text \<open>The publication fails after the commit.\<close>

definition lost_world :: world where
  "lost_world = snd (enqueue_payment_settled ref_lib (Broker (Redis new_redis)) 7
     (ref_settled_world [NoFault, NoFault, NoFault, NoFault, Fails]))"

lemma lost_world_facts:
  "fst (enqueue_payment_settled ref_lib (Broker (Redis new_redis)) 7
     (ref_settled_world [NoFault, NoFault, NoFault, NoFault, Fails])) = Inl ErrBroker"
  "\<exists>r. deliveries (w_db lost_world) = [r] \<and> del_status r = ''pending'' \<and> del_key r = (1, ''payflow/evt/payment.settled/'' @ ref_uuid_string 7)"
  "w_queue lost_world = (\<lambda>_. [])"
  "payments (w_db lost_world) = payments (w_db (ref_settled_world []))"
  "tenants (w_db lost_world) = tenants ref_db"
  by (simp_all add: lost_world_def ref_settled_world_def enqueue_payment_settled_def sql_settled_payment_def
      world_eval ref_eval webhook_of_def enqueue_delivery_def sql_insert_delivery_def payment_delivery_def
      Let_def redis_publish_webhook_delivery_def redis_lpush_def del_key_def ref_lib_def)

theorem enqueue_payment_once_witness:
  "w_queue (snd (enqueue_payment_settled ref_lib (Broker AzureServiceBus) 7 lost_world)) = w_queue lost_world"
proof -
  have "\<exists>p t. sql_settled_payment 7 (w_db lost_world) = Some (p, t) \<and> pay_tenant p = 1"
    using lost_world_facts(4,5)
    by (simp add: sql_settled_payment_def ref_settled_world_def ref_db_def sample_tenant_def)
  then obtain p t where row: "sql_settled_payment 7 (w_db lost_world) = Some (p, t)" "pay_tenant p = 1" by blast
  have "(pay_tenant p, ''payflow/evt/payment.settled/'' @ l_uuid_string ref_lib 7) \<in> del_key ` set (deliveries (w_db lost_world))"
    using lost_world_facts(2) row(2) by (auto simp: ref_lib_def)
  from enqueue_payment_once [OF row(1) this surjective_pairing] show ?thesis by blast
qed


end
