(* ===== verification/Worker.thy ===== *)
theory Worker
  imports Refund Webhook
begin

text \<open>
  \<open>cmd/worker\<close>: the loop that settles what the outbox names, enqueues the notifications
  and serves the broker's jobs.
\<close>

section \<open>tryProcessOutbox\<close>

record outbox_followup =
  fu_payment :: "uuid option"
  fu_refund :: "uuid option"

text \<open>
  The oldest row that is not processed; one worker at a time, so no row is locked by another.
\<close>

definition sql_next_outbox :: "db \<Rightarrow> outbox_row option" where
  "sql_next_outbox d =
     (case sort_key out_created (filter (\<lambda>x. out_processed x = None) (outbox d)) of
        [] \<Rightarrow> None
      | ob # _ \<Rightarrow> Some ob)"

definition sql_mark_processed :: "uuid \<Rightarrow> unit stmt" where
  "sql_mark_processed oid g d =
     Inr ((), d\<lparr>outbox := update_where (\<lambda>x. out_id x = oid) (\<lambda>x. x\<lparr>out_processed := Some (g_now g)\<rparr>) (outbox d)\<rparr>)"

definition settle_outbox_row :: "lib \<Rightarrow> outbox_row \<Rightarrow> outbox_followup action" where
  "settle_outbox_row L ob =
     (if out_kind ob = kind_payment_settlement then
        (case string_field ''payment_id'' (out_payload ob) of
           None \<Rightarrow> op_err ErrJSON
         | Some s \<Rightarrow>
             (case l_uuid_parse L s of
                None \<Rightarrow> op_err (ErrUUID s)
              | Some pid \<Rightarrow> op_then (payment_settle_tx pid)
                  (\<lambda>_. op_ok \<lparr>fu_payment = Some pid, fu_refund = None\<rparr>)))
      else if out_kind ob = kind_refund_settlement then
        (case string_field ''refund_id'' (out_payload ob) of
           None \<Rightarrow> op_err ErrJSON
         | Some s \<Rightarrow>
             (case l_uuid_parse L s of
                None \<Rightarrow> op_err (ErrUUID s)
              | Some rid \<Rightarrow> op_then (refund_settle_tx L rid)
                  (\<lambda>_. op_ok \<lparr>fu_payment = None, fu_refund = Some rid\<rparr>)))
      else op_err (ErrUnknownKind (out_kind ob)))"

definition try_process_outbox :: "lib \<Rightarrow> outbox_followup action" where
  "try_process_outbox L =
     with_tx (op_then (query Tx sql_next_outbox) (\<lambda>row.
       case row of
         None \<Rightarrow> op_ok \<lparr>fu_payment = None, fu_refund = None\<rparr>
       | Some ob \<Rightarrow>
           op_then (settle_outbox_row L ob) (\<lambda>fu.
           op_then (exec Tx (sql_mark_processed (out_id ob))) (\<lambda>_.
           op_then commit_tx (\<lambda>_. op_ok fu)))))"

section \<open>The main loop\<close>

definition worker_max_attempts :: "int \<Rightarrow> int" where
  "worker_max_attempts configured = (if configured \<le> 0 then 5 else configured)"

definition sleep :: "time \<Rightarrow> unit action" where
  "sleep t = op_mod (\<lambda>w. w\<lparr>w_now := w_now w + t\<rparr>)"

text \<open>An error is logged and the loop goes on.\<close>

definition logged :: "'a action \<Rightarrow> unit action" where
  "logged m = op_try m (\<lambda>_. op_ok ())"

definition serve_job :: "lib \<Rightarrow> job_queue \<Rightarrow> int \<Rightarrow> string \<times> uuid \<Rightarrow> unit action" where
  "serve_job L q max_att job =
     (case job of (key, jid) \<Rightarrow>
       if key = settlement_key q then
         logged (op_then (payment_settle jid) (\<lambda>_. enqueue_payment_settled L (Broker q) jid))
       else if key = default_webhook_queue_key then
         logged (process_delivery L max_att jid)
       else if key = default_refund_queue_key then
         logged (op_then (refund_settle L jid) (\<lambda>_. enqueue_refund_succeeded L (Broker q) jid))
       else op_ok ())"

definition worker_turn :: "lib \<Rightarrow> job_queue \<Rightarrow> int \<Rightarrow> unit action" where
  "worker_turn L q max_att =
     op_try (try_process_outbox L) (\<lambda>res.
     case res of
       Inl e \<Rightarrow> sleep 1000000
     | Inr fu \<Rightarrow>
         (case fu_payment fu of
            Some pid \<Rightarrow> logged (enqueue_payment_settled L (Broker q) pid)
          | None \<Rightarrow>
              (case fu_refund fu of
                 Some rid \<Rightarrow> logged (enqueue_refund_succeeded L (Broker q) rid)
               | None \<Rightarrow>
                   op_try (br_pop_job L q 5000000) (\<lambda>popped.
                   case popped of
                     Inl e \<Rightarrow> if e = ErrNoJob then sleep 50000 else sleep 1000000
                   | Inr job \<Rightarrow> serve_job L q max_att job))))"

fun worker_turns :: "lib \<Rightarrow> job_queue \<Rightarrow> int \<Rightarrow> nat \<Rightarrow> unit action" where
  "worker_turns L q max_att 0 = op_ok ()"
| "worker_turns L q max_att (Suc n) = op_then (worker_turn L q max_att) (\<lambda>_. worker_turns L q max_att n)"

section \<open>What one outbox row does\<close>

lemma sql_next_outbox_Some:
  assumes "sql_next_outbox d = Some ob"
  shows "ob \<in> set (outbox d) \<and> out_processed ob = None"
proof -
  let ?xs = "filter (\<lambda>x. out_processed x = None) (outbox d)"
  obtain rest where s: "sort_key out_created ?xs = ob # rest"
    using assms by (auto simp: sql_next_outbox_def split: list.splits)
  have "ob \<in> set (sort_key out_created ?xs)" unfolding s by simp
  then show ?thesis by simp
qed

lemma sql_next_outbox_None: "sql_next_outbox d = None \<longleftrightarrow> (\<forall>x \<in> set (outbox d). out_processed x \<noteq> None)"
proof -
  have "sql_next_outbox d = None \<longleftrightarrow> sort_key out_created (filter (\<lambda>x. out_processed x = None) (outbox d)) = []"
    by (simp add: sql_next_outbox_def split: list.splits)
  also have "\<dots> \<longleftrightarrow> set (sort_key out_created (filter (\<lambda>x. out_processed x = None) (outbox d))) = {}"
    by (simp only: set_empty)
  also have "\<dots> \<longleftrightarrow> (\<forall>x \<in> set (outbox d). out_processed x \<noteq> None)" by auto
  finally show ?thesis .
qed

text \<open>The oldest row is the one taken.\<close>

lemma sql_next_outbox_oldest:
  assumes "sql_next_outbox d = Some ob" and "ob' \<in> set (outbox d)" and "out_processed ob' = None"
  shows "out_created ob \<le> out_created ob'"
proof -
  let ?xs = "filter (\<lambda>x. out_processed x = None) (outbox d)"
  obtain rest where s: "sort_key out_created ?xs = ob # rest"
    using assms(1) by (auto simp: sql_next_outbox_def split: list.splits)
  have "ob' \<in> set (sort_key out_created ?xs)" using assms(2,3) by simp
  moreover have "sorted (map out_created (sort_key out_created ?xs))" by simp
  ultimately show ?thesis unfolding s by auto
qed

definition mark_processed :: "uuid \<Rightarrow> time \<Rightarrow> db \<Rightarrow> db" where
  "mark_processed oid t d =
     d\<lparr>outbox := update_where (\<lambda>x. out_id x = oid) (\<lambda>x. x\<lparr>out_processed := Some t\<rparr>) (outbox d)\<rparr>"

text \<open>The settlement a row asks for, done or found done.\<close>

definition row_settled :: "lib \<Rightarrow> outbox_row \<Rightarrow> outbox_followup \<Rightarrow> db \<Rightarrow> db \<Rightarrow> bool" where
  "row_settled L ob fu d d1 \<longleftrightarrow>
     (\<exists>s pid. out_kind ob = kind_payment_settlement \<and> string_field ''payment_id'' (out_payload ob) = Some s \<and>
        l_uuid_parse L s = Some pid \<and> fu = \<lparr>fu_payment = Some pid, fu_refund = None\<rparr> \<and>
        (settled_once pid d d1 \<or> payment_settled pid d \<and> d1 = d)) \<or>
     (\<exists>s rid. out_kind ob = kind_refund_settlement \<and> string_field ''refund_id'' (out_payload ob) = Some s \<and>
        l_uuid_parse L s = Some rid \<and> fu = \<lparr>fu_payment = None, fu_refund = Some rid\<rparr> \<and>
        (refund_settled_once L rid d d1 \<or> refund_settled rid d \<and> d1 = d))"

definition outbox_step :: "lib \<Rightarrow> outbox_followup \<Rightarrow> db \<Rightarrow> db \<Rightarrow> bool" where
  "outbox_step L fu d d' \<longleftrightarrow>
     (\<exists>ob d1 t. sql_next_outbox d = Some ob \<and> row_settled L ob fu d d1 \<and> d' = mark_processed (out_id ob) t d1)"

text \<open>
  The same for any row still to be processed: with several workers each takes the oldest row that no
  other has locked.
\<close>

definition outbox_serves :: "lib \<Rightarrow> outbox_row \<Rightarrow> outbox_followup \<Rightarrow> db \<Rightarrow> db \<Rightarrow> bool" where
  "outbox_serves L ob fu d d' \<longleftrightarrow> ob \<in> set (outbox d) \<and> out_processed ob = None \<and>
     (\<exists>d1 t. row_settled L ob fu d d1 \<and> d' = mark_processed (out_id ob) t d1)"

lemma outbox_step_serves: "outbox_step L fu d d' \<Longrightarrow> \<exists>ob. outbox_serves L ob fu d d'"
  unfolding outbox_step_def outbox_serves_def using sql_next_outbox_Some by blast

lemma settle_outbox_row_wp:
  "wp (settle_outbox_row L ob)
     (\<lambda>fu v. w_db v = w_db w \<and> row_settled L ob fu (w_tx w) (w_tx v)) (\<lambda>_ v. w_db v = w_db w) w"
  unfolding settle_outbox_row_def
proof (intro wp_ifI wp_optionI wp_errI wp_thenI, simp_all only:, goal_cases)
  case (1 s pid)
  then show ?case
    by (intro wp_mono [OF payment_settle_tx_wp] wp_okI) (auto simp: row_settled_def)
next
  case (2 s rid)
  then show ?case
    by (intro wp_mono [OF refund_settle_tx_wp] wp_okI) (auto simp: row_settled_def)
qed

text \<open>
  Whichever calls fail: nothing, or the oldest row's settlement together with its mark.
\<close>

lemma try_process_outbox_wp:
  "wp (try_process_outbox L)
     (\<lambda>fu v. (fu = \<lparr>fu_payment = None, fu_refund = None\<rparr> \<and> w_db v = w_db w \<and> sql_next_outbox (w_db w) = None) \<or>
        outbox_step L fu (w_db w) (w_db v))
     (\<lambda>_ v. w_db v = w_db w \<or> (\<exists>fu. outbox_step L fu (w_db w) (w_db v))) w"
  unfolding try_process_outbox_def
proof (rule wp_with_txI, simp, rule wp_thenI, rule wp_query_TxI, simp, rule wp_optionI, goal_cases)
  case (1 v v1)
  then show ?case by (intro wp_okI) simp
next
  case (2 v v1 ob)
  have step: "outbox_step L fu (w_db w) d'"
    if "row_settled L ob fu (w_db w) d1" "sql_mark_processed (out_id ob) g d1 = Inr (u, d')" for fu d1 g u d'
    unfolding outbox_step_def
    using that 2 by (intro exI [of _ ob] exI [of _ d1] exI [of _ "g_now g"]) (auto simp: sql_mark_processed_def mark_processed_def)
  show ?case
    by (rule wp_thenI, rule wp_mono [OF settle_outbox_row_wp], rule wp_thenI, rule wp_exec_TxI, simp add: 2,
        rule wp_thenI, rule wp_commitI) (use 2 in \<open>auto intro!: wp_okI dest: step\<close>)
qed

end
