(* ===== verification/Tenant.thy ===== *)
theory Tenant
  imports Ledger Reference
begin

text \<open>
  \<open>internal/tenant\<close> and the key half of \<open>internal/auth\<close>: onboarding of a tenant
  with its first API key, listing and revocation of keys, and the lookup that turns a raw key
  into a tenant. Only the key's digest is stored.
\<close>

section \<open>API keys\<close>

definition api_key_prefix :: string where
  "api_key_prefix = ''pf_live_''"

definition hash_api_key :: "lib \<Rightarrow> string \<Rightarrow> string" where
  "hash_api_key L raw = hex_encode (l_sha256 L raw)"

definition generate_api_key :: "string action" where
  "generate_api_key w =
     (if cur_fault w = Fails then (Inl ErrRand, tick w)
      else (Inr (api_key_prefix @ hex_encode (w_rand w (w_gen w))), spend w))"

text \<open>The lookup of both middlewares: the key must be stored and not revoked.\<close>

definition sql_active_key :: "string \<Rightarrow> db \<Rightarrow> (uuid \<times> uuid) option" where
  "sql_active_key hash d =
     map_option (\<lambda>k. (key_tenant k, key_id k))
       (find (\<lambda>k. key_hash k = hash \<and> key_revoked k = None) (api_keys d))"

section \<open>tenant.Service\<close>

definition validate_tenant_name :: "string \<Rightarrow> bool" where
  "validate_tenant_name name \<longleftrightarrow>
     (let n = trim_space name in \<not> (length n < 2 \<or> length n > 128))"

definition sql_insert_tenant :: "string \<Rightarrow> uuid stmt" where
  "sql_insert_tenant name g d =
     (if g_uuid g \<in> ten_id ` set (tenants d) then Inl ErrDB
      else Inr (g_uuid g, d\<lparr>tenants := tenants d @ [\<lparr>ten_id = g_uuid g, ten_name = name,
        ten_created = g_now g, ten_webhook_url = None, ten_webhook_secret = None\<rparr>]\<rparr>))"

definition sql_insert_api_key :: "uuid \<Rightarrow> string \<Rightarrow> string \<Rightarrow> unit stmt" where
  "sql_insert_api_key tid hash prefix g d =
     (if g_uuid g \<in> key_id ` set (api_keys d) \<or> hash \<in> key_hash ` set (api_keys d) then Inl ErrDB
      else if tid \<notin> ten_id ` set (tenants d) then Inl ErrDB
      else Inr ((), d\<lparr>api_keys := api_keys d @ [\<lparr>key_id = g_uuid g, key_tenant = tid, key_hash = hash,
        key_prefix = prefix, key_created = g_now g, key_revoked = None\<rparr>]\<rparr>))"

definition create_tenant_with_api_key :: "lib \<Rightarrow> string \<Rightarrow> (uuid \<times> string) action" where
  "create_tenant_with_api_key L name =
     (if \<not> validate_tenant_name name then op_err ErrInvalidName
      else with_tx (
        op_then (exec Tx (sql_insert_tenant (trim_space name))) (\<lambda>tid.
        op_then generate_api_key (\<lambda>raw.
        let hash = hash_api_key L raw;
            prefix = (if length raw > 16 then take 16 raw else raw) in
        op_then (exec Tx (sql_insert_api_key tid hash prefix)) (\<lambda>_.
        op_then (audit_write Tx (Some tid) ''tenant_created'' (Some [(''name'', JStr (trim_space name))])) (\<lambda>_.
        op_then (audit_write Tx (Some tid) ''api_key_issued'' (Some [(''key_prefix'', JStr prefix)])) (\<lambda>_.
        op_then commit_tx (\<lambda>_. op_ok (tid, raw)))))))))"

text \<open>A key as the API shows it: neither the raw key nor its digest.\<close>

record api_key_info =
  ki_id :: uuid
  ki_prefix :: string
  ki_created :: time
  ki_revoked :: "time option"

definition key_info :: "api_key_row \<Rightarrow> api_key_info" where
  "key_info k = \<lparr>ki_id = key_id k, ki_prefix = key_prefix k, ki_created = key_created k, ki_revoked = key_revoked k\<rparr>"

definition list_api_keys :: "uuid \<Rightarrow> api_key_info list action" where
  "list_api_keys tid =
     query Pool (\<lambda>d. map key_info (sort_key (\<lambda>k. - key_created k)
       (filter (\<lambda>k. key_tenant k = tid) (api_keys d))))"

text \<open>The update and the number of rows it changed.\<close>

definition revocable :: "uuid \<Rightarrow> uuid \<Rightarrow> api_key_row \<Rightarrow> bool" where
  "revocable tid kid k \<longleftrightarrow> key_id k = kid \<and> key_tenant k = tid \<and> key_revoked k = None"

definition sql_revoke_key :: "uuid \<Rightarrow> uuid \<Rightarrow> nat stmt" where
  "sql_revoke_key tid kid g d =
     Inr (count_where (revocable tid kid) (api_keys d),
          d\<lparr>api_keys := update_where (revocable tid kid) (\<lambda>k. k\<lparr>key_revoked := Some (g_now g)\<rparr>) (api_keys d)\<rparr>)"

definition revoke_api_key :: "lib \<Rightarrow> uuid \<Rightarrow> uuid \<Rightarrow> unit action" where
  "revoke_api_key L tid kid =
     with_tx (
       op_then (exec Tx (sql_revoke_key tid kid)) (\<lambda>affected.
       if affected = 0 then op_err ErrNoRows
       else
       op_then (audit_write Tx (Some tid) ''api_key_revoked'' (Some [(''key_id'', JStr (l_uuid_string L kid))]))
         (\<lambda>_. commit_tx)))"

definition get_name :: "uuid \<Rightarrow> string action" where
  "get_name tid =
     op_then (query Pool (\<lambda>d. find (\<lambda>t. ten_id t = tid) (tenants d)))
       (\<lambda>r. case r of None \<Rightarrow> op_err ErrNoRows | Some t \<Rightarrow> op_ok (ten_name t))"

section \<open>What a created tenant is\<close>

definition tenant_created :: "lib \<Rightarrow> string \<Rightarrow> uuid \<Rightarrow> string \<Rightarrow> db \<Rightarrow> db \<Rightarrow> bool" where
  "tenant_created L name tid raw d d' \<longleftrightarrow>
     tid \<notin> ten_id ` set (tenants d) \<and> hash_api_key L raw \<notin> key_hash ` set (api_keys d) \<and>
     (\<exists>t k au1 au2. ten_id t = tid \<and> ten_name t = trim_space name \<and>
        ten_webhook_url t = None \<and> ten_webhook_secret t = None \<and>
        key_tenant k = tid \<and> key_hash k = hash_api_key L raw \<and> key_revoked k = None \<and>
        key_id k \<notin> key_id ` set (api_keys d) \<and>
        aud_tenant au1 = Some tid \<and> aud_event au1 = ''tenant_created'' \<and>
        aud_tenant au2 = Some tid \<and> aud_event au2 = ''api_key_issued'' \<and>
        d' = d\<lparr>tenants := tenants d @ [t], api_keys := api_keys d @ [k], audits := audits d @ [au1, au2]\<rparr>)"

lemma sql_insert_tenant_ok:
  "sql_insert_tenant name g d = Inr (tid, d') \<Longrightarrow>
   tid \<notin> ten_id ` set (tenants d) \<and>
   (\<exists>t. ten_id t = tid \<and> ten_name t = name \<and> ten_webhook_url t = None \<and> ten_webhook_secret t = None \<and>
     d' = d\<lparr>tenants := tenants d @ [t]\<rparr>)"
  by (rule conjI, force simp: sql_insert_tenant_def split: if_splits,
      rule exI [of _ "\<lparr>ten_id = g_uuid g, ten_name = name, ten_created = g_now g, ten_webhook_url = None,
        ten_webhook_secret = None\<rparr>"])
    (auto simp: sql_insert_tenant_def split: if_splits)

lemma sql_insert_api_key_ok:
  "sql_insert_api_key tid hash prefix g d = Inr (u, d') \<Longrightarrow>
   hash \<notin> key_hash ` set (api_keys d) \<and>
   (\<exists>k. key_tenant k = tid \<and> key_hash k = hash \<and> key_revoked k = None \<and>
     key_id k \<notin> key_id ` set (api_keys d) \<and> d' = d\<lparr>api_keys := api_keys d @ [k]\<rparr>)"
  by (rule conjI, force simp: sql_insert_api_key_def split: if_splits,
      rule exI [of _ "\<lparr>key_id = g_uuid g, key_tenant = tid, key_hash = hash, key_prefix = prefix,
        key_created = g_now g, key_revoked = None\<rparr>"])
    (auto simp: sql_insert_api_key_def split: if_splits)

lemma wp_generate_api_key [wp_rules]:
  assumes "\<And>v. w_db v = w_db w \<Longrightarrow> w_tx v = w_tx w \<Longrightarrow> env_of v = env_of w \<Longrightarrow> E ErrRand v"
    and "\<And>b v. w_db v = w_db w \<Longrightarrow> w_tx v = w_tx w \<Longrightarrow> env_of v = env_of w \<Longrightarrow> Q (api_key_prefix @ hex_encode b) v"
  shows "wp generate_api_key Q E w"
  using assms by (auto simp: wp_def generate_api_key_def)

lemma tenant_createdI:
  assumes "sql_insert_tenant (trim_space name) g d = Inr (tid, d1)"
    and "sql_insert_api_key tid (hash_api_key L raw) prefix g1 d1 = Inr ((), d2)"
    and "sql_insert_audit (Some tid) ''tenant_created'' j1 g2 d2 = Inr ((), d3)"
    and "sql_insert_audit (Some tid) ''api_key_issued'' j2 g3 d3 = Inr ((), d4)"
  shows "tenant_created L name tid raw d d4"
proof -
  obtain t where t: "ten_id t = tid" "ten_name t = trim_space name" "ten_webhook_url t = None"
      "ten_webhook_secret t = None" "tid \<notin> ten_id ` set (tenants d)" "d1 = d\<lparr>tenants := tenants d @ [t]\<rparr>"
    using sql_insert_tenant_ok [OF assms(1)] by blast
  obtain k where k: "key_tenant k = tid" "key_hash k = hash_api_key L raw" "key_revoked k = None"
      "key_id k \<notin> key_id ` set (api_keys d1)" "hash_api_key L raw \<notin> key_hash ` set (api_keys d1)"
      "d2 = d1\<lparr>api_keys := api_keys d1 @ [k]\<rparr>"
    using sql_insert_api_key_ok [OF assms(2)] by blast
  obtain au1 where au1: "aud_tenant au1 = Some tid" "aud_event au1 = ''tenant_created''"
      "d3 = d2\<lparr>audits := audits d2 @ [au1]\<rparr>" using sql_insert_audit_ok [OF assms(3)] by blast
  obtain au2 where au2: "aud_tenant au2 = Some tid" "aud_event au2 = ''api_key_issued''"
      "d4 = d3\<lparr>audits := audits d3 @ [au2]\<rparr>" using sql_insert_audit_ok [OF assms(4)] by blast
  show ?thesis
    unfolding tenant_created_def
    using t k au1 au2
    by (intro conjI exI [of _ t] exI [of _ k] exI [of _ au1] exI [of _ au2]) simp_all
qed

text \<open>Whichever calls fail, onboarding does nothing or everything.\<close>

lemma create_tenant_wp:
  "wp (create_tenant_with_api_key L name)
     (\<lambda>(tid, raw) v. tenant_created L name tid raw (w_db w) (w_db v) \<and> (\<exists>b. raw = api_key_prefix @ hex_encode b))
     (\<lambda>_ v. w_db v = w_db w \<or> (\<exists>tid raw. tenant_created L name tid raw (w_db w) (w_db v))) w"
  unfolding create_tenant_with_api_key_def Let_def
  by (intro wp_rules; (simp; fail)?) (auto intro: tenant_createdI)

section \<open>Keys and tenants\<close>

definition plain :: "string \<Rightarrow> bool" where
  "plain s \<longleftrightarrow> list_all (\<lambda>c. 32 < byte c \<and> byte c < 128) s"

lemma plain_append [simp]: "plain (s @ t) \<longleftrightarrow> plain s \<and> plain t"
  by (simp add: plain_def)

lemma trim_space_plain:
  assumes "plain s"
  shows "trim_space s = s"
proof (rule trim_space_clean_id)
  have sp: "\<not> ascii_space c" if "32 < byte c" for c using that by (auto simp: ascii_space_byte)
  show "strip_any go_spaces s = None"
    using assms sp by (cases s) (simp_all add: plain_def strip_any_ascii)
  have "plain (rev s)" using assms by (simp add: plain_def)
  then show "strip_any (map rev go_spaces) (rev s) = None"
    using sp by (cases "rev s") (simp_all add: plain_def strip_any_rev_ascii)
qed

lemma plain_hex [simp]: "plain (hex_encode b)"
proof -
  have "list_all (\<lambda>c. 32 < byte c \<and> byte c < 128) ''0123456789abcdef''" by code_simp
  then have "32 < byte (hex_char n) \<and> byte (hex_char n) < 128" if "n < 16" for n
    using that unfolding hex_char_def list_all_length by simp
  then show ?thesis by (induction b) (simp_all add: plain_def)
qed

lemma plain_api_key: "trim_space (api_key_prefix @ hex_encode b) = api_key_prefix @ hex_encode b"
proof -
  have "plain api_key_prefix" unfolding api_key_prefix_def by code_simp
  then show ?thesis by (intro trim_space_plain) simp
qed

text \<open>The key a tenant was given is the tenant's.\<close>

lemma created_key_active:
  assumes "tenant_created L name tid raw d d'"
  shows "\<exists>kid. sql_active_key (hash_api_key L raw) d' = Some (tid, kid)"
proof -
  obtain t k au where k: "d' = d\<lparr>tenants := tenants d @ [t], api_keys := api_keys d @ [k], audits := au\<rparr>"
      "key_tenant k = tid" "key_hash k = hash_api_key L raw" "key_revoked k = None"
    and new: "hash_api_key L raw \<notin> key_hash ` set (api_keys d)"
    using assms unfolding tenant_created_def by blast
  have "find (\<lambda>k. key_hash k = hash_api_key L raw \<and> key_revoked k = None) (api_keys d) = None"
    unfolding find_None_in using new by (metis imageI)
  with k show ?thesis by (simp add: sql_active_key_def find_append)
qed

text \<open>
  C32: an onboarding that succeeds has written one tenant, one key and two audit records, nothing
  else, and the raw key it returns is resolved to the new tenant by the lookup that guards the
  API.
\<close>

theorem tenant_onboarding:
  assumes "create_tenant_with_api_key L name w = (Inr (tid, raw), w')"
  shows "tenant_created L name tid raw (w_db w) (w_db w') \<and>
    (\<exists>kid. sql_active_key (hash_api_key L (trim_space raw)) (w_db w') = Some (tid, kid))"
proof -
  from wp_Inr [OF create_tenant_wp assms]
  have c: "tenant_created L name tid raw (w_db w) (w_db w')" and "trim_space raw = raw"
    by (auto simp: plain_api_key)
  with created_key_active [OF c] show ?thesis by simp
qed

theorem tenant_onboarding_witness:
  "\<exists>tid raw w'. create_tenant_with_api_key ref_lib ''Shop'' (ref_world ref_db []) = (Inr (tid, raw), w') \<and>
     tenant_created ref_lib ''Shop'' tid raw ref_db (w_db w')"
proof -
  have v: "validate_tenant_name ''Shop''" "trim_space ''Shop'' = ''Shop''" by (code_simp, code_simp)
  have "\<exists>x w'. create_tenant_with_api_key ref_lib ''Shop'' (ref_world ref_db []) = (Inr x, w')"
    by (simp add: create_tenant_with_api_key_def v Let_def world_eval ref_eval generate_api_key_def
        sql_insert_tenant_def sql_insert_api_key_def audit_write_def sql_insert_audit_def ref_uuid_def)
  then obtain tid raw w' where run: "create_tenant_with_api_key ref_lib ''Shop'' (ref_world ref_db []) = (Inr (tid, raw), w')"
    by (metis surj_pair)
  from tenant_onboarding [OF this] run show ?thesis by auto
qed

text \<open>Revocation, whichever calls fail.\<close>

lemma revoke_wp:
  "wp (revoke_api_key L tid kid)
     (\<lambda>_ v. (\<exists>k \<in> set (api_keys (w_db w)). revocable tid kid k) \<and>
        (\<exists>au t. w_db v = (w_db w)\<lparr>audits := audits (w_db w) @ [au],
           api_keys := update_where (revocable tid kid) (\<lambda>k. k\<lparr>key_revoked := Some t\<rparr>) (api_keys (w_db w))\<rparr>))
     (\<lambda>_ v. w_db v = w_db w \<or>
        (\<exists>au t. w_db v = (w_db w)\<lparr>audits := audits (w_db w) @ [au],
           api_keys := update_where (revocable tid kid) (\<lambda>k. k\<lparr>key_revoked := Some t\<rparr>) (api_keys (w_db w))\<rparr>)) w"
proof -
  have ex: "\<exists>au t. d2 = d\<lparr>audits := audits d @ [au],
           api_keys := update_where (revocable tid kid) (\<lambda>k. k\<lparr>key_revoked := Some t\<rparr>) (api_keys d)\<rparr>"
    if rv: "sql_revoke_key tid kid g d = Inr (n, d1)" and ins: "sql_insert_audit (Some tid) ''api_key_revoked'' j g1 d1 = Inr ((), d2)"
    for g n d d1 j g1 d2
  proof -
    have d1: "d1 = d\<lparr>api_keys := update_where (revocable tid kid) (\<lambda>k. k\<lparr>key_revoked := Some (g_now g)\<rparr>) (api_keys d)\<rparr>"
      using rv by (simp add: sql_revoke_key_def)
    obtain au where "d2 = d1\<lparr>audits := audits d1 @ [au]\<rparr>" using sql_insert_audit_ok [OF ins] by blast
    then show ?thesis by (intro exI [of _ au] exI [of _ "g_now g"]) (simp add: d1)
  qed
  have some: "\<exists>k \<in> set (api_keys d). revocable tid kid k"
    if "sql_revoke_key tid kid g d = Inr (n, d1)" and "n \<noteq> 0" for g d n d1
    using that count_where_0 [of "revocable tid kid" "api_keys d"] by (auto simp: sql_revoke_key_def)
  show ?thesis
    unfolding revoke_api_key_def
    by (intro wp_rules; (simp; fail)?) (auto dest: some ex)
qed

text \<open>
  C33: after a successful revocation no request with that key passes the lookup.
\<close>

theorem revoked_key_refused:
  assumes "revoke_api_key L tid kid w = (Inr (), w')" and "distinct (map key_hash (api_keys (w_db w)))"
    and "k \<in> set (api_keys (w_db w))" and "key_id k = kid"  and "key_tenant k = tid"
  shows "sql_active_key (key_hash k) (w_db w') = None"
proof -
  obtain au t where d': "w_db w' = (w_db w)\<lparr>audits := audits (w_db w) @ [au],
      api_keys := update_where (revocable tid kid) (\<lambda>k. k\<lparr>key_revoked := Some t\<rparr>) (api_keys (w_db w))\<rparr>"
    using wp_Inr [OF revoke_wp assms(1)] by blast
  have "\<not> (key_hash x = key_hash k \<and> key_revoked x = None)" if "x \<in> set (api_keys (w_db w'))" for x
  proof
    assume x: "key_hash x = key_hash k \<and> key_revoked x = None"
    have "x \<in> set (update_where (revocable tid kid) (\<lambda>k. k\<lparr>key_revoked := Some t\<rparr>) (api_keys (w_db w)))"
      using that by (simp add: d')
    then obtain y where y: "y \<in> set (api_keys (w_db w))"
      "x = (if revocable tid kid y then y\<lparr>key_revoked := Some t\<rparr> else y)"
      unfolding in_update_where by blast
    have "key_hash y = key_hash k" using x y(2) by (simp split: if_splits)
    with distinct_map_unique [OF assms(2) y(1) assms(3)] have "y = k" by simp
    with y(2) x assms(4,5) show False by (auto simp: revocable_def split: if_splits)
  qed
  then show ?thesis by (simp add: sql_active_key_def find_None_in)
qed


theorem revoked_key_refused_witness:
  "\<exists>w'. revoke_api_key ref_lib 1 5 (ref_world (ref_db\<lparr>api_keys := [\<lparr>key_id = 5, key_tenant = 1, key_hash = ''h'',
       key_prefix = ''p'', key_created = 0, key_revoked = None\<rparr>]\<rparr>) []) = (Inr (), w') \<and>
     sql_active_key ''h'' (w_db w') = None"
proof -
  let ?k = "\<lparr>key_id = 5, key_tenant = 1, key_hash = ''h'', key_prefix = ''p'', key_created = 0, key_revoked = None\<rparr> :: api_key_row"
  let ?w = "ref_world (ref_db\<lparr>api_keys := [?k]\<rparr>) []"
  have "fst (revoke_api_key ref_lib 1 5 ?w) = Inr ()"
    by (simp add: revoke_api_key_def sql_revoke_key_def world_eval ref_eval audit_write_def sql_insert_audit_def
        count_where_def revocable_def Let_def)
  then obtain w' where run: "revoke_api_key ref_lib 1 5 ?w = (Inr (), w')" by (metis prod.collapse)
  from revoked_key_refused [OF run, of ?k] run show ?thesis by simp
qed

end
