(* ===== verification/HttpApi.thy ===== *)
theory HttpApi
  imports Refund Webhook Tenant
begin

text \<open>
  \<open>internal/httpapi\<close> and the request half of \<open>internal/auth\<close>: who a request
  speaks for, what each handler does and answers, the routes, and the log line of a request.
\<close>

section \<open>Requests, contexts, answers\<close>

text \<open>
  What the handlers read of a request. The body is what \<open>encoding/json\<close> makes of it: it
  cannot be read, is blank, is no JSON, or is a JSON value.
\<close>

datatype body = Unreadable | Blank | NotJson | Json json

record request =
  rq_method :: string
  rq_path :: "string list" \<comment> \<open>the segments of the URL path\<close>
  rq_api_key :: string
  rq_authorization :: string
  rq_idempotency_key :: string
  rq_origin :: string
  rq_status :: string \<comment> \<open>the query parameter\<close>
  rq_body :: body

datatype principal = PrincipalAPIKey | PrincipalDashboard

fun principal_string :: "principal \<Rightarrow> string" where
  "principal_string PrincipalAPIKey = ''api_key''"
| "principal_string PrincipalDashboard = ''dashboard''"

record ctx =
  cx_request_id :: "string option"
  cx_tenant :: "uuid option"
  cx_principal :: "principal option"
  cx_subject :: "uuid option"

definition background :: ctx where
  "background = \<lparr>cx_request_id = None, cx_tenant = None, cx_principal = None, cx_subject = None\<rparr>"

definition request_id_of :: "ctx \<Rightarrow> string" where
  "request_id_of c = (case cx_request_id c of None \<Rightarrow> [] | Some rid \<Rightarrow> rid)"

definition with_request_id :: "ctx \<Rightarrow> string \<Rightarrow> ctx" where
  "with_request_id c rid = c\<lparr>cx_request_id := Some rid\<rparr>"

definition with_tenant_principal :: "ctx \<Rightarrow> uuid \<Rightarrow> principal \<Rightarrow> uuid \<Rightarrow> ctx" where
  "with_tenant_principal c tid k sub = c\<lparr>cx_tenant := Some tid, cx_principal := Some k, cx_subject := Some sub\<rparr>"

datatype answer = Failure string | Answer json | Empty | PlainText string

record response =
  rs_status :: int
  rs_headers :: "(string \<times> string) list"
  rs_body :: answer

definition http_error :: "string \<Rightarrow> int \<Rightarrow> response" where
  "http_error code status = \<lparr>rs_status = status, rs_headers = [], rs_body = Failure code\<rparr>"

definition http_json :: "int \<Rightarrow> json \<Rightarrow> response" where
  "http_json status j = \<lparr>rs_status = status, rs_headers = [(''Content-Type'', ''application/json'')], rs_body = Answer j\<rparr>"

text \<open>A handler, and a middleware around one. A handler's errors are answers.\<close>

type_synonym handler = "ctx \<Rightarrow> request \<Rightarrow> response action"

text \<open>\<open>json.NewDecoder(r.Body).Decode\<close> into a struct: any field of the wrong type fails.\<close>

fun decode_body :: "body \<Rightarrow> json option" where
  "decode_body (Json j) = Some j"
| "decode_body _ = None"

definition uuid_field :: "lib \<Rightarrow> string \<Rightarrow> json \<Rightarrow> uuid option" where
  "uuid_field L name j =
     decode_field (\<lambda>v. case v of JStr s \<Rightarrow> l_uuid_parse L s | _ \<Rightarrow> None) 0 name j"

text \<open>The request bodies, under the names of their JSON tags.\<close>

record create_payment_body =
  cpb_amount_cents :: int64
  cpb_currency :: string

definition decode_create_payment_body :: "json \<Rightarrow> create_payment_body option" where
  "decode_create_payment_body j =
     (case (int64_field ''amount_cents'' j, string_field ''currency'' j) of
        (Some a, Some c) \<Rightarrow> Some \<lparr>cpb_amount_cents = a, cpb_currency = c\<rparr>
      | _ \<Rightarrow> None)"

record post_refund_body =
  prb_amount_cents :: int64

definition decode_post_refund_body :: "json \<Rightarrow> post_refund_body option" where
  "decode_post_refund_body j = map_option (\<lambda>a. \<lparr>prb_amount_cents = a\<rparr>) (int64_field ''amount_cents'' j)"

record dashboard_user_body =
  dub_email :: string
  dub_password :: string

definition decode_dashboard_user_body :: "json \<Rightarrow> dashboard_user_body option" where
  "decode_dashboard_user_body j =
     (case (string_field ''email'' j, string_field ''password'' j) of
        (Some e, Some p) \<Rightarrow> Some \<lparr>dub_email = e, dub_password = p\<rparr>
      | _ \<Rightarrow> None)"

record login_body =
  lgb_tenant_id :: uuid
  lgb_email :: string
  lgb_password :: string

definition decode_login_body :: "lib \<Rightarrow> json \<Rightarrow> login_body option" where
  "decode_login_body L j =
     (case (uuid_field L ''tenant_id'' j, string_field ''email'' j, string_field ''password'' j) of
        (Some t, Some e, Some p) \<Rightarrow> Some \<lparr>lgb_tenant_id = t, lgb_email = e, lgb_password = p\<rparr>
      | _ \<Rightarrow> None)"

record patch_webhook_body =
  pwb_url :: string
  pwb_signing_secret :: string

definition decode_patch_webhook_body :: "json \<Rightarrow> patch_webhook_body option" where
  "decode_patch_webhook_body j =
     (case (string_field ''url'' j, string_field ''signing_secret'' j) of
        (Some u, Some k) \<Rightarrow> Some \<lparr>pwb_url = u, pwb_signing_secret = k\<rparr>
      | _ \<Rightarrow> None)"

section \<open>Authentication\<close>

definition sign_dashboard_token :: "lib \<Rightarrow> string \<Rightarrow> uuid \<Rightarrow> uuid \<Rightarrow> time \<Rightarrow> string action" where
  "sign_dashboard_token L secret tid uid ttl =
     op_then (op_get w_now) (\<lambda>now.
     case l_jwt_sign L secret \<lparr>clm_tid = l_uuid_string L tid, clm_sub = l_uuid_string L uid,
            clm_iat = now div 1000000, clm_exp = (now + ttl) div 1000000\<rparr> of
       None \<Rightarrow> op_err ErrRequest
     | Some tok \<Rightarrow> op_ok tok)"

text \<open>
  \<open>l\_jwt\_parse now secret raw\<close> is the library's parse with the HS256 check of the key
  function and the secret: \<open>None\<close> unless the signature and the times are valid, else the
  two claims, where they are strings.
\<close>

definition parse_dashboard_bearer :: "lib \<Rightarrow> time \<Rightarrow> string \<Rightarrow> string \<Rightarrow> (uuid \<times> uuid) option" where
  "parse_dashboard_bearer L now secret authz =
     (if authz = [] then None
      else if \<not> has_prefix authz ''Bearer '' then None
      else
      let raw = trim_space (trim_prefix authz ''Bearer '') in
      case l_jwt_parse L (now div 1000000) secret raw of
        None \<Rightarrow> None
      | Some (tid_claim, sub_claim) \<Rightarrow>
          (case tid_claim of
             None \<Rightarrow> None
           | Some tid_str \<Rightarrow>
               (case sub_claim of
                  None \<Rightarrow> None
                | Some sub_str \<Rightarrow>
                    (case l_uuid_parse L tid_str of
                       None \<Rightarrow> None
                     | Some tid \<Rightarrow>
                         (case l_uuid_parse L sub_str of
                            None \<Rightarrow> None
                          | Some uid \<Rightarrow> Some (tid, uid))))))"

text \<open>The audit record of a refusal is written outside any transaction and its failure ignored.\<close>

definition audit_ignored :: "uuid option \<Rightarrow> string \<Rightarrow> (string \<times> json) list \<Rightarrow> unit action" where
  "audit_ignored tid event meta = op_try (audit_write Pool tid event (Some meta)) (\<lambda>_. op_ok ())"

definition middleware_api_key :: "lib \<Rightarrow> handler \<Rightarrow> handler" where
  "middleware_api_key L next c r =
     (let raw = trim_space (rq_api_key r) in
     if raw = [] then op_ok (http_error ''missing_api_key'' 401)
     else
     op_try (query Pool (sql_active_key (hash_api_key L raw))) (\<lambda>res.
     case res of
       Inr (Some (tid, kid)) \<Rightarrow> next (with_tenant_principal c tid PrincipalAPIKey kid) r
     | _ \<Rightarrow>
         op_then (audit_ignored None ''api_key_auth_failure'' [(''reason'', JStr ''invalid_or_revoked'')])
           (\<lambda>_. op_ok (http_error ''invalid_api_key'' 401))))"

definition path_string :: "string list \<Rightarrow> string" where
  "path_string segs = concat (map (\<lambda>s. CHR ''/'' # s) segs)"

definition me_auth :: "lib \<Rightarrow> string \<Rightarrow> handler \<Rightarrow> handler" where
  "me_auth L secret next c r =
     (let raw = trim_space (rq_api_key r) in
     if raw \<noteq> [] then
       op_try (query Pool (sql_active_key (hash_api_key L raw))) (\<lambda>res.
       case res of
         Inr (Some (tid, kid)) \<Rightarrow> next (with_tenant_principal c tid PrincipalAPIKey kid) r
       | _ \<Rightarrow> op_ok (http_error ''invalid_api_key'' 401))
     else if has_prefix (rq_authorization r) ''Bearer '' then
       op_then (op_get w_now) (\<lambda>now.
       case parse_dashboard_bearer L now secret (rq_authorization r) of
         None \<Rightarrow>
           op_then (audit_ignored None ''dashboard_login_failure''
                     [(''reason'', JStr ''invalid_token''), (''path'', JStr (path_string (rq_path r)))])
             (\<lambda>_. op_ok (http_error ''invalid_token'' 401))
       | Some (tid, uid) \<Rightarrow> next (with_tenant_principal c tid PrincipalDashboard uid) r)
     else op_ok (http_error ''unauthorized'' 401))"

text \<open>The middleware for dashboard routes alone; the router uses \<open>me_auth\<close> instead.\<close>

definition middleware_bearer_jwt :: "lib \<Rightarrow> string \<Rightarrow> handler \<Rightarrow> handler" where
  "middleware_bearer_jwt L secret next c r =
     op_then (op_get w_now) (\<lambda>now.
     case parse_dashboard_bearer L now secret (rq_authorization r) of
       None \<Rightarrow> op_ok (http_error ''invalid_token'' 401)
     | Some (tid, uid) \<Rightarrow> next (with_tenant_principal c tid PrincipalDashboard uid) r)"

lemma me_auth_bearer:
  assumes "trim_space (rq_api_key r) = []"
    and "parse_dashboard_bearer L (w_now w) secret (rq_authorization r) \<noteq> None"
  shows "me_auth L secret next c r w = middleware_bearer_jwt L secret next c r w"
proof -
  have "has_prefix (rq_authorization r) ''Bearer ''"
    using assms(2) by (auto simp: parse_dashboard_bearer_def split: if_splits)
  then show ?thesis
    using assms by (auto simp: me_auth_def middleware_bearer_jwt_def op_defs)
qed

definition require_tenant_id :: "(uuid \<Rightarrow> response action) \<Rightarrow> ctx \<Rightarrow> response action" where
  "require_tenant_id f c =
     (case cx_tenant c of None \<Rightarrow> op_ok (http_error ''unauthorized'' 401) | Some tid \<Rightarrow> f tid)"

section \<open>Tenants and dashboard users\<close>

definition post_tenants :: "lib \<Rightarrow> handler" where
  "post_tenants L c r =
     (case Option.bind (decode_body (rq_body r)) (string_field ''name'') of
        None \<Rightarrow> op_ok (http_error ''invalid_json'' 400)
      | Some name \<Rightarrow>
          op_try (create_tenant_with_api_key L name) (\<lambda>res.
          case res of
            Inl e \<Rightarrow> if e = ErrInvalidName then op_ok (http_error ''invalid_tenant_name'' 400)
                     else op_ok (http_error ''create_failed'' 500)
          | Inr (tid, key) \<Rightarrow>
              op_ok (http_json 200 (JObj [(''api_key'', JStr key), (''tenant_id'', JStr (l_uuid_string L tid))]))))"

definition get_tenants_me :: "lib \<Rightarrow> handler" where
  "get_tenants_me L c r =
     (case cx_tenant c of
        None \<Rightarrow> op_ok (http_error ''no_tenant'' 401)
      | Some tid \<Rightarrow>
          op_try (get_name tid) (\<lambda>res.
          case res of
            Inl e \<Rightarrow> op_ok (http_error ''not_found'' 404)
          | Inr name \<Rightarrow>
              op_ok (http_json 200 (JObj [(''name'', JStr name),
                (''principal'', JStr (case cx_principal c of None \<Rightarrow> [] | Some p \<Rightarrow> principal_string p)),
                (''tenant_id'', JStr (l_uuid_string L tid))]))))"

definition sql_insert_user :: "uuid \<Rightarrow> string \<Rightarrow> string \<Rightarrow> uuid stmt" where
  "sql_insert_user tid email hash g d =
     (if g_uuid g \<in> usr_id ` set (users d) then Inl ErrDB
      else if (tid, email) \<in> (\<lambda>u. (usr_tenant u, usr_email u)) ` set (users d) then Inl ErrDB
      else if tid \<notin> ten_id ` set (tenants d) then Inl ErrDB
      else Inr (g_uuid g, d\<lparr>users := users d @ [\<lparr>usr_id = g_uuid g, usr_tenant = tid, usr_email = email,
        usr_password_hash = hash, usr_created = g_now g\<rparr>]\<rparr>))"

definition post_dashboard_user :: "lib \<Rightarrow> string \<Rightarrow> handler" where
  "post_dashboard_user L tenant_param c r =
     (case cx_tenant c of
        None \<Rightarrow> op_ok (http_error ''forbidden'' 403)
      | Some tid \<Rightarrow>
          if cx_principal c \<noteq> Some PrincipalAPIKey then op_ok (http_error ''forbidden'' 403)
          else if l_uuid_parse L tenant_param \<noteq> Some tid then op_ok (http_error ''tenant_mismatch'' 403)
          else
          (case Option.bind (decode_body (rq_body r)) decode_dashboard_user_body of
             None \<Rightarrow> op_ok (http_error ''invalid_json'' 400)
           | Some b \<Rightarrow>
               (let email = trim_space (to_lower (l_lower L) (dub_email b)) in
               if email = [] \<or> length (dub_password b) < 10 then op_ok (http_error ''invalid_credentials'' 400)
               else
               (case l_bcrypt_hash L (dub_password b) of
                  None \<Rightarrow> op_ok (http_error ''hash_failed'' 500)
                | Some hash \<Rightarrow>
                    op_try (exec Pool (sql_insert_user tid email hash)) (\<lambda>res.
                    case res of
                      Inl e \<Rightarrow> op_ok (http_error ''user_create_failed'' 409)
                    | Inr uid \<Rightarrow>
                        op_then (audit_ignored (Some tid) ''dashboard_user_created''
                           [(''email'', JStr email), (''user_id'', JStr (l_uuid_string L uid))]) (\<lambda>_.
                        op_ok (http_json 201 (JObj [(''user_id'', JStr (l_uuid_string L uid))]))))))))"

definition post_auth_login :: "lib \<Rightarrow> string \<Rightarrow> handler" where
  "post_auth_login L secret c r =
     (case Option.bind (decode_body (rq_body r)) (decode_login_body L) of
        None \<Rightarrow> op_ok (http_error ''invalid_json'' 400)
      | Some b \<Rightarrow>
          (let tid = lgb_tenant_id b; email = trim_space (to_lower (l_lower L) (lgb_email b)) in
          op_try (query Pool (\<lambda>d. find (\<lambda>u. usr_tenant u = tid \<and> usr_email u = email) (users d))) (\<lambda>res.
          case res of
            Inr (Some u) \<Rightarrow>
              if \<not> l_bcrypt_match L (usr_password_hash u) (lgb_password b) then
                op_then (audit_ignored (Some tid) ''dashboard_login_failure''
                   [(''email'', JStr email), (''reason'', JStr ''bad_password'')]) (\<lambda>_.
                op_ok (http_error ''invalid_credentials'' 401))
              else
              op_try (sign_dashboard_token L secret tid (usr_id u) (24 * 3600 * 1000000)) (\<lambda>signed.
              case signed of
                Inl e \<Rightarrow> op_ok (http_error ''token_failed'' 500)
              | Inr tok \<Rightarrow>
                  op_then (audit_ignored (Some tid) ''dashboard_login_success''
                     [(''email'', JStr email), (''user_id'', JStr (l_uuid_string L (usr_id u)))]) (\<lambda>_.
                  op_ok (http_json 200 (JObj [(''access_token'', JStr tok), (''expires_in'', JNum 86400),
                     (''token_type'', JStr ''Bearer'')]))))
          | _ \<Rightarrow>
              op_then (audit_ignored (Some tid) ''dashboard_login_failure''
                 [(''email'', JStr email), (''reason'', JStr ''unknown_user'')]) (\<lambda>_.
              op_ok (http_error ''invalid_credentials'' 401)))))"

definition layout_seconds :: string where
  "layout_seconds = ''2006-01-02T15:04:05Z07:00''"

definition layout_nano :: string where
  "layout_nano = ''2006-01-02T15:04:05.999999999Z07:00''"

definition api_key_json :: "lib \<Rightarrow> api_key_info \<Rightarrow> json" where
  "api_key_json L k =
     JObj ([(''created_at'', JStr (l_format_time L layout_seconds (ki_created k))),
            (''id'', JStr (l_uuid_string L (ki_id k))), (''key_prefix'', JStr (ki_prefix k))] @
           (case ki_revoked k of None \<Rightarrow> []
            | Some t \<Rightarrow> [(''revoked_at'', JStr (l_format_time L layout_seconds t))]))"

definition get_tenant_api_keys :: "lib \<Rightarrow> handler" where
  "get_tenant_api_keys L c r =
     (case cx_tenant c of
        None \<Rightarrow> op_ok (http_error ''no_tenant'' 401)
      | Some tid \<Rightarrow>
          op_try (list_api_keys tid) (\<lambda>res.
          case res of
            Inl e \<Rightarrow> op_ok (http_error ''list_failed'' 500)
          | Inr keys \<Rightarrow> op_ok (http_json 200 (JObj [(''api_keys'', JArr (map (api_key_json L) keys))]))))"

definition delete_tenant_api_key :: "lib \<Rightarrow> string \<Rightarrow> handler" where
  "delete_tenant_api_key L key_param c r =
     (case cx_tenant c of
        None \<Rightarrow> op_ok (http_error ''no_tenant'' 401)
      | Some tid \<Rightarrow>
          (case l_uuid_parse L key_param of
             None \<Rightarrow> op_ok (http_error ''invalid_id'' 400)
           | Some kid \<Rightarrow>
               op_try (revoke_api_key L tid kid) (\<lambda>res.
               case res of
                 Inl e \<Rightarrow> if e = ErrNoRows then op_ok (http_error ''not_found'' 404)
                          else op_ok (http_error ''revoke_failed'' 500)
               | Inr u \<Rightarrow> op_ok (http_json 200 (JObj [(''ok'', JBool True)])))))"


section \<open>Payments\<close>

definition payment_json :: "lib \<Rightarrow> payment \<Rightarrow> (string \<times> json) list" where
  "payment_json L p =
     [(''amount_cents'', JNum (sint (pay_amount p))),
      (''created_at'', JStr (l_format_time L layout_nano (pay_created p))),
      (''currency'', JStr (pay_currency p)), (''id'', JStr (l_uuid_string L (pay_id p))),
      (''idempotency_key'', JStr (pay_key p)), (''idempotency_scope'', JStr (pay_scope p)),
      (''status'', JStr (pay_status p)), (''tenant_id'', JStr (l_uuid_string L (pay_tenant p))),
      (''updated_at'', JStr (l_format_time L layout_nano (pay_updated p)))]"

definition ledger_event_json :: "lib \<Rightarrow> event \<Rightarrow> json" where
  "ledger_event_json L e =
     JObj [(''created_at'', JStr (l_format_time L layout_nano (ev_created e))),
           (''dedupe_key'', JStr (ev_dedupe e)), (''event_type'', JStr (ev_type e)),
           (''id'', JNum (int (ev_id e))), (''payload'', JObj (ev_payload e))]"

definition post_payment :: "lib \<Rightarrow> handler" where
  "post_payment L c r =
     require_tenant_id (\<lambda>tid.
     let key = trim_space (rq_idempotency_key r) in
     if key = [] then op_ok (http_error ''missing_idempotency_key'' 400)
     else
     (case Option.bind (decode_body (rq_body r)) decode_create_payment_body of
        None \<Rightarrow> op_ok (http_error ''invalid_json'' 400)
      | Some b \<Rightarrow>
          op_try (payment_create L tid key (cpb_amount_cents b) (cpb_currency b)) (\<lambda>res.
          case res of
            Inl e \<Rightarrow>
              op_ok (case e of
                  ErrPaymentIdempotencyMismatch \<Rightarrow> http_error ''idempotency_conflict'' 409
                | ErrPaymentInvalidInput _ \<Rightarrow> http_error ''invalid_payment'' 400
                | _ \<Rightarrow> http_error ''create_failed'' 500)
          | Inr (p, created) \<Rightarrow>
              op_ok (http_json (if created then 201 else 200) (JObj (payment_json L p)))))) c"

definition get_payment :: "lib \<Rightarrow> string \<Rightarrow> handler" where
  "get_payment L payment_param c r =
     require_tenant_id (\<lambda>tid.
     case l_uuid_parse L payment_param of
       None \<Rightarrow> op_ok (http_error ''invalid_payment_id'' 400)
     | Some pid \<Rightarrow>
         op_try (payment_get tid pid) (\<lambda>res.
         case res of
           Inl e \<Rightarrow> op_ok (if e = ErrPaymentNotFound then http_error ''not_found'' 404
                          else http_error ''load_failed'' 500)
         | Inr p \<Rightarrow>
             op_try (list_by_payment tid pid) (\<lambda>evs.
             case evs of
               Inl e \<Rightarrow> op_ok (http_error ''ledger_failed'' 500)
             | Inr events \<Rightarrow>
                 op_ok (http_json 200 (JObj (take 6 (payment_json L p) @
                   [(''ledger_events'', JArr (map (ledger_event_json L) events))] @
                   drop 6 (payment_json L p))))))) c"

section \<open>Refunds\<close>

definition refund_json :: "lib \<Rightarrow> refund \<Rightarrow> json" where
  "refund_json L r =
     JObj [(''amount_cents'', JNum (sint (ref_amount r))),
      (''created_at'', JStr (l_format_time L layout_seconds (ref_created r))),
      (''currency'', JStr (ref_currency r)), (''id'', JStr (l_uuid_string L (ref_id r))),
      (''idempotency_key'', JStr (ref_key r)), (''idempotency_scope'', JStr (ref_scope r)),
      (''payment_id'', JStr (l_uuid_string L (ref_payment r))), (''status'', JStr (ref_status r)),
      (''tenant_id'', JStr (l_uuid_string L (ref_tenant r))),
      (''updated_at'', JStr (l_format_time L layout_seconds (ref_updated r)))]"

text \<open>A blank body asks for the whole amount.\<close>

definition post_refund :: "lib \<Rightarrow> string \<Rightarrow> handler" where
  "post_refund L payment_param c r =
     require_tenant_id (\<lambda>tid.
     case l_uuid_parse L payment_param of
       None \<Rightarrow> op_ok (http_error ''invalid_payment_id'' 400)
     | Some pid \<Rightarrow>
         let key = trim_space (rq_idempotency_key r) in
         if key = [] then op_ok (http_error ''missing_idempotency_key'' 400)
         else if rq_body r = Unreadable then op_ok (http_error ''invalid_body'' 400)
         else
         (case (if rq_body r = Blank then Some \<lparr>prb_amount_cents = 0\<rparr>
                else Option.bind (decode_body (rq_body r)) decode_post_refund_body) of
            None \<Rightarrow> op_ok (http_error ''invalid_json'' 400)
          | Some b \<Rightarrow>
              op_try (refund_create L tid pid key (prb_amount_cents b)) (\<lambda>res.
              case res of
                Inl e \<Rightarrow>
                  op_ok (case e of
                      ErrRefundIdempotencyMismatch \<Rightarrow> http_error ''idempotency_conflict'' 409
                    | ErrRefundInvalidInput _ \<Rightarrow> http_error ''invalid_refund'' 400
                    | ErrRefundAmountExceeded \<Rightarrow> http_error ''invalid_refund'' 400
                    | ErrPaymentNotRefundable \<Rightarrow> http_error ''payment_not_refundable'' 409
                    | ErrRefundNotFound \<Rightarrow> http_error ''not_found'' 404
                    | _ \<Rightarrow> http_error ''create_failed'' 500)
              | Inr (ref, created) \<Rightarrow> op_ok (http_json (if created then 201 else 200) (refund_json L ref))))) c"

definition get_refund :: "lib \<Rightarrow> string \<Rightarrow> handler" where
  "get_refund L refund_param c r =
     require_tenant_id (\<lambda>tid.
     case l_uuid_parse L refund_param of
       None \<Rightarrow> op_ok (http_error ''invalid_refund_id'' 400)
     | Some rid \<Rightarrow>
         op_try (refund_get tid rid) (\<lambda>res.
         case res of
           Inl e \<Rightarrow> op_ok (if e = ErrRefundNotFound then http_error ''not_found'' 404
                          else http_error ''load_failed'' 500)
         | Inr ref \<Rightarrow> op_ok (http_json 200 (refund_json L ref)))) c"

section \<open>Webhooks\<close>

definition sql_set_webhook :: "uuid \<Rightarrow> string \<Rightarrow> string \<Rightarrow> unit stmt" where
  "sql_set_webhook tid url secret g d =
     Inr ((), d\<lparr>tenants := update_where (\<lambda>t. ten_id t = tid)
       (\<lambda>t. t\<lparr>ten_webhook_url := Some url, ten_webhook_secret := Some secret\<rparr>) (tenants d)\<rparr>)"

definition patch_tenant_webhook :: "lib \<Rightarrow> handler" where
  "patch_tenant_webhook L c r =
     require_tenant_id (\<lambda>tid.
     case Option.bind (decode_body (rq_body r)) decode_patch_webhook_body of
       None \<Rightarrow> op_ok (http_error ''invalid_json'' 400)
     | Some b \<Rightarrow>
         (let url = trim_space (pwb_url b) in
         if url = [] then op_ok (http_error ''missing_url'' 400)
         else
         op_try (exec Pool (sql_set_webhook tid url (pwb_signing_secret b))) (\<lambda>res.
         case res of
           Inl e \<Rightarrow> op_ok (http_error ''update_failed'' 500)
         | Inr u \<Rightarrow> op_ok (http_json 200 (JObj [(''ok'', JBool True)]))))) c"

definition list_row_json :: "lib \<Rightarrow> list_row \<Rightarrow> json" where
  "list_row_json L x =
     JObj [(''attempt_count'', JNum (lr_attempts x)),
      (''created_at'', JStr (l_format_time L layout_seconds (lr_created x))),
      (''event_type'', JStr (lr_event x)), (''id'', JStr (l_uuid_string L (lr_id x))),
      (''last_error'', JStr (lr_error x)), (''max_attempts'', JNum (lr_max x)),
      (''status'', JStr (lr_status x))]"

definition list_webhook_deliveries :: "lib \<Rightarrow> handler" where
  "list_webhook_deliveries L c r =
     require_tenant_id (\<lambda>tid.
     op_try (list_deliveries tid (trim_space (rq_status r)) 50) (\<lambda>res.
     case res of
       Inl e \<Rightarrow> op_ok (http_error ''list_failed'' 500)
     | Inr rows \<Rightarrow> op_ok (http_json 200 (JObj [(''deliveries'', JArr (map (list_row_json L) rows))])))) c"

definition delivery_json :: "lib \<Rightarrow> delivery_view \<Rightarrow> json" where
  "delivery_json L x =
     JObj ([(''attempt_count'', JNum (dv_attempts x)),
       (''created_at'', JStr (l_format_time L layout_seconds (dv_created x))),
       (''event_type'', JStr (dv_event x)), (''id'', JStr (l_uuid_string L (dv_id x))),
       (''last_error'', JStr (dv_error x)), (''max_attempts'', JNum (dv_max x)),
       (''merchant_idempotency_key'', JStr (dv_key x)), (''payload'', JObj (dv_payload x))] @
      (case dv_payment x of None \<Rightarrow> [] | Some p \<Rightarrow> [(''payment_id'', JStr p)]) @
      (case dv_refund x of None \<Rightarrow> [] | Some p \<Rightarrow> [(''refund_id'', JStr p)]) @
      [(''status'', JStr (dv_status x)), (''target_url'', JStr (dv_url x)),
       (''tenant_id'', JStr (l_uuid_string L (dv_tenant x))),
       (''updated_at'', JStr (l_format_time L layout_seconds (dv_updated x)))])"

definition get_webhook_delivery :: "lib \<Rightarrow> string \<Rightarrow> handler" where
  "get_webhook_delivery L delivery_param c r =
     require_tenant_id (\<lambda>tid.
     case l_uuid_parse L delivery_param of
       None \<Rightarrow> op_ok (http_error ''invalid_id'' 400)
     | Some did \<Rightarrow>
         op_try (get_delivery L tid did) (\<lambda>res.
         case res of
           Inl e \<Rightarrow> op_ok (if e = ErrNoRows then http_error ''not_found'' 404 else http_error ''load_failed'' 500)
         | Inr x \<Rightarrow> op_ok (http_json 200 (delivery_json L x)))) c"

definition sql_revive_delivery :: "uuid \<Rightarrow> uuid \<Rightarrow> unit stmt" where
  "sql_revive_delivery did tid g d =
     Inr ((), d\<lparr>deliveries := update_where (\<lambda>x. del_id x = did \<and> del_tenant x = tid \<and> del_status x = ''dlq'')
       (\<lambda>x. x\<lparr>del_status := ''pending'', del_attempts := 0, del_error := Some [], del_next := g_now g,
              del_updated := g_now g\<rparr>) (deliveries d)\<rparr>)"

definition post_webhook_delivery_retry :: "lib \<Rightarrow> publisher \<Rightarrow> string \<Rightarrow> handler" where
  "post_webhook_delivery_retry L pub delivery_param c r =
     require_tenant_id (\<lambda>tid.
     case l_uuid_parse L delivery_param of
       None \<Rightarrow> op_ok (http_error ''invalid_id'' 400)
     | Some did \<Rightarrow>
         op_try (query Pool (\<lambda>d. find (\<lambda>x. del_id x = did \<and> del_tenant x = tid) (deliveries d))) (\<lambda>res.
         case res of
           Inl e \<Rightarrow> op_ok (http_error ''load_failed'' 500)
         | Inr None \<Rightarrow> op_ok (http_error ''not_found'' 404)
         | Inr (Some x) \<Rightarrow>
             if del_status x \<noteq> ''dlq'' then op_ok (http_error ''not_dlq'' 400)
             else
             op_try (exec Pool (sql_revive_delivery did tid)) (\<lambda>upd.
             case upd of
               Inl e \<Rightarrow> op_ok (http_error ''update_failed'' 500)
             | Inr u \<Rightarrow>
                 op_try (publish_webhook_delivery L pub did) (\<lambda>sent.
                 case sent of
                   Inl e \<Rightarrow> op_ok (http_error ''enqueue_failed'' 503)
                 | Inr u \<Rightarrow> op_ok (http_json 200 (JObj [(''delivery_id'', JStr (l_uuid_string L did)),
                      (''ok'', JBool True)])))))) c"

section \<open>Middleware of every request\<close>

definition cors_set :: "string list \<Rightarrow> string set" where
  "cors_set allowed = set (filter (\<lambda>x. x \<noteq> []) (map trim_space allowed))"

definition cors_headers :: "string list \<Rightarrow> request \<Rightarrow> (string \<times> string) list" where
  "cors_headers allowed r =
     (let origin = trim_space (rq_origin r) in
     if origin \<noteq> [] \<and> origin \<in> cors_set allowed then
       [(''Access-Control-Allow-Origin'', origin),
        (''Access-Control-Allow-Methods'', ''GET, POST, PATCH, DELETE, OPTIONS''),
        (''Access-Control-Allow-Headers'', ''Authorization, Content-Type, X-Api-Key, Idempotency-Key''),
        (''Access-Control-Max-Age'', ''86400'')]
     else [])"

definition add_headers :: "(string \<times> string) list \<Rightarrow> response \<Rightarrow> response" where
  "add_headers hs x = x\<lparr>rs_headers := hs @ rs_headers x\<rparr>"

text \<open>The log line of a request; a request answered before the logger has none.\<close>

type_synonym log_line = "(string \<times> string) list"

type_synonym served = "response \<times> log_line option"

definition cors_middleware ::
  "string list \<Rightarrow> (ctx \<Rightarrow> request \<Rightarrow> served action) \<Rightarrow> ctx \<Rightarrow> request \<Rightarrow> served action" where
  "cors_middleware allowed next c r =
     (let hs = cors_headers allowed r in
     if rq_method r = ''OPTIONS'' then
       op_ok (\<lparr>rs_status = 204, rs_headers = hs, rs_body = Empty\<rparr>, None)
     else op_then (next c r) (\<lambda>(x, l). op_ok (add_headers hs x, l)))"

definition new_request_id :: "lib \<Rightarrow> string action" where
  "new_request_id L w = (Inr (l_uuid_string L (w_uuid w (w_gen w))), w\<lparr>w_gen := Suc (w_gen w)\<rparr>)"

definition request_id_middleware ::
  "lib \<Rightarrow> (ctx \<Rightarrow> request \<Rightarrow> served action) \<Rightarrow> ctx \<Rightarrow> request \<Rightarrow> served action" where
  "request_id_middleware L next c r =
     op_then (new_request_id L) (\<lambda>rid.
     op_then (next (with_request_id c rid) r) (\<lambda>(x, l).
     op_ok (add_headers [(''X-Request-Id'', rid)] x, l)))"

text \<open>The status the recorder keeps: the first one written, 200 when none was.\<close>

definition recorded_status :: "int list \<Rightarrow> int" where
  "recorded_status codes =
     (let code = foldl (\<lambda>s c. if s = 0 then c else s) 0 codes in if code = 0 then 200 else code)"

text \<open>
  The attributes come from the logger's own request: what a middleware further in adds to the
  context is not in it.
\<close>

definition log_attrs :: "lib \<Rightarrow> ctx \<Rightarrow> request \<Rightarrow> int \<Rightarrow> int \<Rightarrow> log_line" where
  "log_attrs L c r status duration_ms =
     [(''method'', rq_method r), (''path'', path_string (rq_path r)), (''status'', format_int status),
      (''duration_ms'', format_int duration_ms)] @
     (if request_id_of c = [] then [] else [(''request_id'', request_id_of c)]) @
     (case cx_tenant c of None \<Rightarrow> [] | Some tid \<Rightarrow> [(''tenant_id'', l_uuid_string L tid)]) @
     (case cx_principal c of None \<Rightarrow> [] | Some p \<Rightarrow> [(''principal'', principal_string p)])"

definition request_logger :: "lib \<Rightarrow> handler \<Rightarrow> ctx \<Rightarrow> request \<Rightarrow> served action" where
  "request_logger L next c r =
     op_then (op_get w_now) (\<lambda>start.
     op_then (next c r) (\<lambda>x.
     op_then (op_get w_now) (\<lambda>now.
     op_ok (x, Some (log_attrs L c r (recorded_status [rs_status x]) ((now - start) div 1000))))))"

section \<open>Routes\<close>

datatype route =
    PostTenants | PostLogin | GetMe | GetKeys | DeleteKey string | PatchWebhook | ListDeliveries
  | GetDelivery string | RetryDelivery string | PostUser string | PostPayment | GetPayment string
  | PostRefund string | GetRefund string | Healthz

text \<open>A pattern of segments; \<open>None\<close> is a parameter.\<close>

fun match_path :: "string option list \<Rightarrow> string list \<Rightarrow> string list option" where
  "match_path [] [] = Some []"
| "match_path (Some s # ps) (x # xs) = (if s = x then match_path ps xs else None)"
| "match_path (None # ps) (x # xs) = map_option (Cons x) (match_path ps xs)"
| "match_path _ _ = None"

definition routes :: "(string \<times> string option list \<times> (string list \<Rightarrow> route)) list" where
  "routes =
     [(''POST'', [Some ''v1'', Some ''tenants''], \<lambda>_. PostTenants),
      (''POST'', [Some ''v1'', Some ''auth'', Some ''login''], \<lambda>_. PostLogin),
      (''GET'', [Some ''v1'', Some ''tenants'', Some ''me''], \<lambda>_. GetMe),
      (''GET'', [Some ''v1'', Some ''tenants'', Some ''me'', Some ''api-keys''], \<lambda>_. GetKeys),
      (''DELETE'', [Some ''v1'', Some ''tenants'', Some ''me'', Some ''api-keys'', None], \<lambda>p. DeleteKey (hd p)),
      (''PATCH'', [Some ''v1'', Some ''tenants'', Some ''me'', Some ''webhook''], \<lambda>_. PatchWebhook),
      (''GET'', [Some ''v1'', Some ''webhook-deliveries''], \<lambda>_. ListDeliveries),
      (''GET'', [Some ''v1'', Some ''webhook-deliveries'', None], \<lambda>p. GetDelivery (hd p)),
      (''POST'', [Some ''v1'', Some ''webhook-deliveries'', None, Some ''retry''], \<lambda>p. RetryDelivery (hd p)),
      (''POST'', [Some ''v1'', Some ''tenants'', None, Some ''dashboard-users''], \<lambda>p. PostUser (hd p)),
      (''POST'', [Some ''v1'', Some ''payments''], \<lambda>_. PostPayment),
      (''GET'', [Some ''v1'', Some ''payments'', None], \<lambda>p. GetPayment (hd p)),
      (''POST'', [Some ''v1'', Some ''payments'', None, Some ''refunds''], \<lambda>p. PostRefund (hd p)),
      (''GET'', [Some ''v1'', Some ''refunds'', None], \<lambda>p. GetRefund (hd p)),
      (''GET'', [Some ''healthz''], \<lambda>_. Healthz)]"

fun route_in :: "(string \<times> string option list \<times> (string list \<Rightarrow> route)) list \<Rightarrow> string \<Rightarrow> string list \<Rightarrow> route option" where
  "route_in [] m p = None"
| "route_in ((m', pat, f) # rest) m p =
     (if m = m' then (case match_path pat p of Some args \<Rightarrow> Some (f args) | None \<Rightarrow> route_in rest m p)
      else route_in rest m p)"

definition route_of :: "request \<Rightarrow> route option" where
  "route_of r = route_in routes (rq_method r) (rq_path r)"

record server =
  sv_secret :: string
  sv_pub :: publisher
  sv_cors :: "string list"

fun serve_route :: "lib \<Rightarrow> server \<Rightarrow> route \<Rightarrow> handler" where
  "serve_route L s PostTenants = post_tenants L"
| "serve_route L s PostLogin = post_auth_login L (sv_secret s)"
| "serve_route L s GetMe = me_auth L (sv_secret s) (get_tenants_me L)"
| "serve_route L s GetKeys = me_auth L (sv_secret s) (get_tenant_api_keys L)"
| "serve_route L s (DeleteKey k) = me_auth L (sv_secret s) (delete_tenant_api_key L k)"
| "serve_route L s PatchWebhook = me_auth L (sv_secret s) (patch_tenant_webhook L)"
| "serve_route L s ListDeliveries = me_auth L (sv_secret s) (list_webhook_deliveries L)"
| "serve_route L s (GetDelivery x) = me_auth L (sv_secret s) (get_webhook_delivery L x)"
| "serve_route L s (RetryDelivery x) = me_auth L (sv_secret s) (post_webhook_delivery_retry L (sv_pub s) x)"
| "serve_route L s (PostUser t) = middleware_api_key L (post_dashboard_user L t)"
| "serve_route L s PostPayment = middleware_api_key L (post_payment L)"
| "serve_route L s (GetPayment p) = middleware_api_key L (get_payment L p)"
| "serve_route L s (PostRefund p) = middleware_api_key L (post_refund L p)"
| "serve_route L s (GetRefund x) = middleware_api_key L (get_refund L x)"
| "serve_route L s Healthz = (\<lambda>c r. op_ok \<lparr>rs_status = 200, rs_headers = [], rs_body = PlainText ''ok''\<rparr>)"

text \<open>
  \<open>other\<close> stands for the answers that are not the program's: the metrics handler, and the
  router's own answer to a request that no route matches.
\<close>

definition dispatch :: "lib \<Rightarrow> server \<Rightarrow> (request \<Rightarrow> response) \<Rightarrow> handler" where
  "dispatch L s other c r =
     (case route_of r of None \<Rightarrow> op_ok (other r) | Some x \<Rightarrow> serve_route L s x c r)"

definition serve :: "lib \<Rightarrow> server \<Rightarrow> (request \<Rightarrow> response) \<Rightarrow> request \<Rightarrow> served action" where
  "serve L s other r =
     (let logged = request_id_middleware L (request_logger L (dispatch L s other))
      in if sv_cors s \<noteq> [] then cors_middleware (sv_cors s) logged background r
         else logged background r)"

end
