(* ===== verification/Steps.thy ===== *)
theory Steps
  imports Worker HttpApi
begin

text \<open>
  The platform as an abstract state machine over its tables. Each step (\<open>db_step\<close>) is one
  business transaction with its whole effect: an accepted payment or refund, a settlement, a served
  outbox row, a new or moved delivery, an onboarding, a change of keys, users or webhooks. What the
  steps keep is proved in \<open>Consistency\<close>, that the code makes only such steps in
  \<open>Refinement\<close>.
\<close>

section \<open>What can happen to a delivery\<close>

text \<open>
  The states of a delivery row and its moves: delivered, another attempt used up, given up, or
  taken back from the dead letters by an operator.
\<close>

inductive delivery_move :: "delivery \<Rightarrow> delivery \<Rightarrow> bool" where
  delivered: "delivery_move r (r\<lparr>del_status := ''succeeded'', del_updated := t\<rparr>)"
    if "del_status r = ''pending''"
| failed: "delivery_move r (r\<lparr>del_attempts := del_attempts r + 1, del_error := Some msg,
      del_status := (if del_attempts r + 1 \<ge> max_attempts dm r then ''dlq'' else ''pending''), del_updated := t\<rparr>)"
    if "del_status r = ''pending''" "del_attempts r < max_attempts dm r"
| given_up: "delivery_move r (r\<lparr>del_status := ''dlq'', del_error := err, del_updated := t\<rparr>)"
    if "del_status r = ''pending''"
| revived: "delivery_move r (r\<lparr>del_status := ''pending'', del_attempts := 0, del_error := Some [],
      del_next := t, del_updated := t\<rparr>)"
    if "del_status r = ''dlq''"

definition deliveries_moved :: "db \<Rightarrow> db \<Rightarrow> bool" where
  "deliveries_moved d d' \<longleftrightarrow>
     (\<exists>ds. list_all2 (\<lambda>r r'. r' = r \<or> delivery_move r r') (deliveries d) ds \<and> d' = d\<lparr>deliveries := ds\<rparr>)"

section \<open>The abstract steps\<close>

text \<open>
  The platform as its tables see it: every step is one whole business transaction. Requests,
  jobs, transactions, failures and retries are no longer visible.
\<close>

inductive db_step :: "lib \<Rightarrow> db \<Rightarrow> db \<Rightarrow> bool" for L :: lib where
  payment_accepted: "db_step L d d'" if "accepted L t k amt c row d d'"
| payment_settles: "db_step L d d'" if "settled_once pid d d'"
| refund_requested: "db_step L d d'" if "refund_accepted L t pid k amt row d d'"
| refund_settles: "db_step L d d'" if "refund_settled_once L rid d d'"
| outbox_served: "db_step L d d'" if "outbox_serves L ob fu d d'"
| payment_notified: "db_step L d d'"
    if "sql_settled_payment pid d = Some (p, t)" "delivery_added (payment_delivery L p url) r d d'"
| refund_notified: "db_step L d d'"
    if "sql_succeeded_refund rid d = Some (rf, t)" "delivery_added (refund_delivery L rf url) r d d'"
| delivery_moves: "db_step L d d'" if "deliveries_moved d d'"
| onboarded: "db_step L d d'" if "tenant_created L name tid raw d d'"
| key_revoked: "db_step L d (d\<lparr>api_keys := update_where (revocable tid kid) (\<lambda>k. k\<lparr>key_revoked := Some now\<rparr>) (api_keys d),
      audits := audits d @ [au]\<rparr>)"
| user_added: "db_step L d (d\<lparr>users := users d @ [u]\<rparr>)"
    if "usr_id u \<notin> usr_id ` set (users d)" "usr_tenant u \<in> ten_id ` set (tenants d)"
| webhook_set: "db_step L d (d\<lparr>tenants := update_where (\<lambda>t. ten_id t = tid)
      (\<lambda>t. t\<lparr>ten_webhook_url := Some url, ten_webhook_secret := Some secret\<rparr>) (tenants d)\<rparr>)"
| audited: "db_step L d (d\<lparr>audits := audits d @ [au]\<rparr>)"

abbreviation db_run :: "lib \<Rightarrow> db \<Rightarrow> db \<Rightarrow> bool" where
  "db_run L \<equiv> (db_step L)\<^sup>*\<^sup>*"

section \<open>References of the ledger\<close>

lemma ledger_refs_more:
  assumes "ledger_refs d" and "ledger d' = ledger d @ evs" and "pay_id ` set (payments d) \<subseteq> pay_id ` set (payments d')"
    and "led_payment ` set evs \<subseteq> {pid}" and "pid \<in> pay_id ` set (payments d')"
  shows "ledger_refs d'"
  using assms by (auto simp: ledger_refs_def)

lemma event_added_payment: "event_added t k e old evs \<Longrightarrow> led_payment ` set evs \<subseteq> {fst k}"
  by (cases "k \<in> led_key ` set old") (auto simp: event_added_def led_key_def)

lemma ids_update_where:
  "(\<And>x. key (f x) = key x) \<Longrightarrow> key ` set (update_where P f xs) = key ` set xs"
  unfolding set_map [symmetric] by (simp only: map_update_where)

lemma ledger_refs_same: "ledger d' = ledger d \<Longrightarrow> payments d' = payments d \<Longrightarrow> ledger_refs d' = ledger_refs d"
  by (simp add: ledger_refs_def)

lemma ledger_refs_accepted: "accepted L t k amt c row d d' \<Longrightarrow> ledger_refs d \<Longrightarrow> ledger_refs d'"
  by (auto simp: accepted_def Let_def led_key_def intro!: ledger_refs_more [of d _ _ "pay_id row"])

lemma ledger_refs_settled: "settled_once pid d d' \<Longrightarrow> ledger_refs d \<Longrightarrow> ledger_refs d'"
  by (auto simp: settled_once_def ids_update_where dest!: event_added_payment find_Some_iff_in
      elim!: ledger_refs_more)

lemma refund_allowed_row:
  "refund_allowed t pid amt p d \<Longrightarrow> p \<in> set (payments d) \<and> pay_id p = pid \<and> pay_tenant p = t \<and>
   pay_status p = ''succeeded'' \<and> 0 < sint amt \<and> pid \<in> pay_id ` set (payments d)"
  by (auto simp: refund_allowed_def dest!: find_Some_iff_in)

lemma ledger_refs_refund: "refund_accepted L t pid k amt row d d' \<Longrightarrow> ledger_refs d \<Longrightarrow> ledger_refs d'"
  by (auto simp: refund_accepted_def dest!: event_added_payment refund_allowed_row elim!: ledger_refs_more)

lemma refund_with_payment_rows:
  "sql_refund_with_payment rid d = Some (r, p) \<Longrightarrow> r \<in> set (refunds d) \<and> ref_id r = rid \<and>
   p \<in> set (payments d) \<and> pay_id p = ref_payment r \<and> ref_payment r \<in> pay_id ` set (payments d)"
  by (auto simp: sql_refund_with_payment_def split: option.splits dest!: find_Some_iff_in) (metis imageI)

lemma ledger_refs_refund_settled: "refund_settled_once L rid d d' \<Longrightarrow> ledger_refs d \<Longrightarrow> ledger_refs d'"
  by (auto simp: refund_settled_once_def dest!: event_added_payment refund_with_payment_rows
      elim!: ledger_refs_more)

lemma ledger_refs_mark [simp]: "ledger_refs (mark_processed oid t d) = ledger_refs d"
  by (simp add: ledger_refs_def mark_processed_def)

lemma ledger_refs_outbox: "outbox_serves L ob fu d d' \<Longrightarrow> ledger_refs d \<Longrightarrow> ledger_refs d'"
  by (auto simp: outbox_serves_def row_settled_def intro: ledger_refs_settled ledger_refs_refund_settled)

lemma ledger_refs_step: "db_step L d d' \<Longrightarrow> ledger_refs d \<Longrightarrow> ledger_refs d'"
proof (induction rule: db_step.induct)
  case payment_accepted
  then show ?case by (rule ledger_refs_accepted)
next
  case payment_settles
  then show ?case by (rule ledger_refs_settled)
next
  case refund_requested
  then show ?case by (rule ledger_refs_refund)
next
  case refund_settles
  then show ?case by (rule ledger_refs_refund_settled)
next
  case outbox_served
  then show ?case by (rule ledger_refs_outbox)
qed (auto simp: delivery_added_def deliveries_moved_def tenant_created_def intro: ledger_refs_same [THEN iffD2])

lemma delivery_move_id: "delivery_move r r' \<Longrightarrow> del_id r' = del_id r"
  by (induction rule: delivery_move.induct) simp_all

lemma deliveries_moved_ids:
  assumes "deliveries_moved d d'"
  shows "map del_id (deliveries d') = map del_id (deliveries d)"
proof -
  obtain ds where ds: "list_all2 (\<lambda>r r'. r' = r \<or> delivery_move r r') (deliveries d) ds" "d' = d\<lparr>deliveries := ds\<rparr>"
    using assms by (auto simp: deliveries_moved_def)
  from ds(1) have "map del_id ds = map del_id (deliveries d)"
    by (induction rule: list_all2_induct) (auto simp: delivery_move_id)
  with ds(2) show ?thesis by simp
qed

text \<open>What the operations need of the tables: the ledger's foreign key, the deliveries' primary key.\<close>

definition rows_ok :: "db \<Rightarrow> bool" where
  "rows_ok d \<longleftrightarrow> ledger_refs d \<and> distinct (map del_id (deliveries d))"

lemma outbox_serves_deliveries: "outbox_serves L ob fu d d' \<Longrightarrow> deliveries d' = deliveries d"
  by (auto simp: outbox_serves_def row_settled_def settled_once_def refund_settled_once_def mark_processed_def)

lemma rows_ok_step: "db_step L d d' \<Longrightarrow> rows_ok d \<Longrightarrow> rows_ok d'"
proof -
  assume s: "db_step L d d'" and r: "rows_ok d"
  from s have "distinct (map del_id (deliveries d))  \<Longrightarrow> distinct (map del_id (deliveries d'))"
    by (induction rule: db_step.induct)
      (auto simp: accepted_def Let_def settled_once_def refund_accepted_def refund_settled_once_def
        outbox_serves_deliveries delivery_added_def deliveries_moved_ids tenant_created_def)
  with s r ledger_refs_step show "rows_ok d'" by (auto simp: rows_ok_def)
qed

lemma rows_ok_run: "db_run L d d' \<Longrightarrow> rows_ok d \<Longrightarrow> rows_ok d'"
  by (induction rule: rtranclp_induct) (auto intro: rows_ok_step)

end
