(* ===== verification/Isolation.thy ===== *)
theory Isolation
  imports HttpApi
begin

text \<open>
  What the HTTP API guarantees across its routes: isolation of the tenants, what a status code
  tells the client, what a log line holds.
\<close>

section \<open>Isolation of the tenants\<close>

text \<open>What the tables hold of a tenant.\<close>

record tenant_view =
  tv_tenant :: "tenant_row list"
  tv_keys :: "api_key_row list"
  tv_users :: "user_row list"
  tv_payments :: "payment list"
  tv_ledger :: "ledger_event list"
  tv_refunds :: "refund list"
  tv_deliveries :: "delivery list"

definition tenant_view :: "uuid \<Rightarrow> db \<Rightarrow> tenant_view" where
  "tenant_view t d = \<lparr>tv_tenant = filter (\<lambda>x. ten_id x = t) (tenants d),
     tv_keys = filter (\<lambda>x. key_tenant x = t) (api_keys d),
     tv_users = filter (\<lambda>x. usr_tenant x = t) (users d),
     tv_payments = filter (\<lambda>x. pay_tenant x = t) (payments d),
     tv_ledger = filter (\<lambda>x. led_tenant x = t) (ledger d),
     tv_refunds = filter (\<lambda>x. ref_tenant x = t) (refunds d),
     tv_deliveries = filter (\<lambda>x. del_tenant x = t) (deliveries d)\<rparr>"

text \<open>Only \<open>t\<close>'s rows differ (\<open>None\<close>: nobody's).\<close>

definition only_of :: "uuid option \<Rightarrow> db \<Rightarrow> db \<Rightarrow> bool" where
  "only_of t d d' \<longleftrightarrow> (\<forall>u. Some u \<noteq> t \<longrightarrow> tenant_view u d' = tenant_view u d)"

lemma only_of_refl [simp]: "only_of t d d"
  by (simp add: only_of_def)

lemma only_of_trans: "only_of t d d' \<Longrightarrow> only_of t d' d'' \<Longrightarrow> only_of t d d''"
  by (simp add: only_of_def)

definition confined :: "uuid option \<Rightarrow> 'a action \<Rightarrow> bool" where
  "confined t m \<longleftrightarrow> (\<forall>w. only_of t (w_db w) (w_db (snd (m w))))"

lemma confinedI: "(\<And>w r v. m w = (r, v) \<Longrightarrow> only_of t (w_db w) (w_db v)) \<Longrightarrow> confined t m"
  by (simp add: confined_def) (metis prod.collapse)

lemma confinedD: "confined t m \<Longrightarrow> m w = (r, v) \<Longrightarrow> only_of t (w_db w) (w_db v)"
  unfolding confined_def by (metis snd_conv)

lemma confined_ok [keeps_rules]: "confined t (op_ok x)"
  by (rule confinedI) (simp add: op_ok_def)

lemma confined_err [keeps_rules]: "confined t (op_err x)"
  by (rule confinedI) (simp add: op_err_def)

lemma confined_get [keeps_rules]: "confined t (op_get f)"
  by (rule confinedI) (simp add: op_get_def)

lemma confined_then [keeps_rules]: "confined t m \<Longrightarrow> (\<And>x. confined t (f x)) \<Longrightarrow> confined t (op_then m f)"
  by (rule confinedI) (auto simp: op_then_def split: prod.splits sum.splits dest: confinedD intro: only_of_trans)

lemma confined_try [keeps_rules]: "confined t m \<Longrightarrow> (\<And>r. confined t (h r)) \<Longrightarrow> confined t (op_try m h)"
  by (rule confinedI) (auto simp: op_try_def split: prod.splits dest: confinedD intro: only_of_trans)

lemma confined_if [keeps_rules]: "confined t m \<Longrightarrow> confined t n \<Longrightarrow> confined t (if b then m else n)"
  by simp

lemma confined_option [keeps_rules]:
  "confined t m \<Longrightarrow> (\<And>y. confined t (f y)) \<Longrightarrow> confined t (case x of None \<Rightarrow> m | Some y \<Rightarrow> f y)"
  by (cases x) simp_all

lemma confined_sum [keeps_rules]:
  "(\<And>e. confined t (g e)) \<Longrightarrow> (\<And>y. confined t (f y)) \<Longrightarrow> confined t (case x of Inl e \<Rightarrow> g e | Inr y \<Rightarrow> f y)"
  by (cases x) simp_all

lemma confined_prod [keeps_rules]:
  "(\<And>a b. confined t (f a b)) \<Longrightarrow> confined t (case x of (a, b) \<Rightarrow> f a b)"
  by (cases x) simp

lemma confined_query [keeps_rules]: "confined t (query Pool f)"
  by (rule confinedI) (auto simp: query_def exec_def split: if_splits)

lemma confined_exec [keeps_rules]:
  assumes "\<And>d0. stmt_keeps (only_of t d0) f"
  shows "confined t (exec Pool f)"
proof (rule confinedI)
  fix w r v assume run: "exec Pool f w = (r, v)"
  have "only_of t d d'" if "f g d = Inr (x, d')" for g d x d'
    using assms [of d] that only_of_refl unfolding stmt_keeps_def by blast
  then show "only_of t (w_db w) (w_db v)"
    using run by (auto simp: exec_def split: if_splits sum.splits prod.splits)
qed

lemma confined_with_tx [keeps_rules]:
  assumes "\<And>d0. keeps (on_db (only_of t d0)) m"
  shows "confined t (with_tx m)"
proof (rule confinedI)
  fix w r v assume run: "with_tx m w = (r, v)"
  show "only_of t (w_db w) (w_db v)"
  proof (cases "cur_fault w = NoFault")
    case False
    then show ?thesis using run by (auto simp: with_tx_def begin_tx_def op_then_def)
  next
    case True
    let ?w = "(tick w)\<lparr>w_tx := w_db w\<rparr>"
    obtain r1 v1 where m: "m ?w = (r1, v1)" by (cases "m ?w")
    have "on_db (only_of t (w_db w)) ?w" by (simp add: on_db_def)
    from keepsD [OF assms this m] have "only_of t (w_db w) (w_db v1)" by (simp add: on_db_def)
    moreover have "v = v1\<lparr>w_tx := w_db v1\<rparr>"
      using run True m by (simp add: with_tx_def begin_tx_def op_then_def defer_rollback_def)
    ultimately show ?thesis by simp
  qed
qed

lemma stmt_only_ofI:
  "(\<And>g d x d'. f g d = Inr (x, d') \<Longrightarrow> only_of t d d') \<Longrightarrow> stmt_keeps (only_of t d0) f"
  by (rule stmt_keepsI) (blast intro: only_of_trans)

lemma stmt_insert_payment [keeps_rules]: "stmt_keeps (only_of (Some t) d0) (sql_insert_payment L t a c s k h)"
  by (rule stmt_only_ofI)
    (auto simp: sql_insert_payment_def only_of_def tenant_view_def Let_def split: if_splits option.splits)

lemma stmt_insert_refund [keeps_rules]: "stmt_keeps (only_of (Some t) d0) (sql_insert_refund L t p a c s k h)"
  by (rule stmt_only_ofI)
    (auto simp: sql_insert_refund_def only_of_def tenant_view_def Let_def split: if_splits option.splits)

lemma stmt_insert_ledger [keeps_rules]: "stmt_keeps (only_of (Some t) d0) (sql_insert_ledger t p k e j)"
  by (rule stmt_only_ofI)
    (auto simp: sql_insert_ledger_def only_of_def tenant_view_def Let_def split: if_splits)

lemma stmt_insert_audit [keeps_rules]: "stmt_keeps (only_of t d0) (sql_insert_audit u e j)"
  by (rule stmt_only_ofI)
    (auto simp: sql_insert_audit_def only_of_def tenant_view_def split: if_splits)

lemma stmt_insert_outbox [keeps_rules]: "stmt_keeps (only_of t d0) (sql_insert_outbox k j)"
  by (rule stmt_only_ofI)
    (auto simp: sql_insert_outbox_def only_of_def tenant_view_def split: if_splits)

lemma stmt_insert_user [keeps_rules]: "stmt_keeps (only_of (Some t) d0) (sql_insert_user t e h)"
  by (rule stmt_only_ofI)
    (auto simp: sql_insert_user_def only_of_def tenant_view_def split: if_splits)

lemma filter_update_where:
  "(\<And>r. P r \<Longrightarrow> \<not> K r \<and> \<not> K (f r)) \<Longrightarrow> filter K (update_where P f xs) = filter K xs"
  by (induction xs) (auto simp: update_where_def)

lemma stmt_revoke_key [keeps_rules]: "stmt_keeps (only_of (Some t) d0) (sql_revoke_key t k)"
  by (rule stmt_only_ofI)
    (auto simp: sql_revoke_key_def only_of_def tenant_view_def revocable_def intro!: filter_update_where)

lemma stmt_set_webhook [keeps_rules]: "stmt_keeps (only_of (Some t) d0) (sql_set_webhook t u s)"
  by (rule stmt_only_ofI)
    (auto simp: sql_set_webhook_def only_of_def tenant_view_def intro!: filter_update_where)

lemma stmt_revive [keeps_rules]: "stmt_keeps (only_of (Some t) d0) (sql_revive_delivery did t)"
  by (rule stmt_only_ofI)
    (auto simp: sql_revive_delivery_def only_of_def tenant_view_def intro!: filter_update_where)

lemma keeps_db_mod [keeps_rules]: "(\<And>w. w_db (f w) = w_db w \<and> w_tx (f w) = w_tx w) \<Longrightarrow> keeps (on_db D) (op_mod f)"
  by (rule keepsI) (auto simp: op_mod_def on_db_def)

lemma keeps_if [keeps_rules]: "keeps I m \<Longrightarrow> keeps I n \<Longrightarrow> keeps I (if b then m else n)"
  by simp

lemma keeps_option [keeps_rules]:
  "keeps I m \<Longrightarrow> (\<And>y. keeps I (f y)) \<Longrightarrow> keeps I (case x of None \<Rightarrow> m | Some y \<Rightarrow> f y)"
  by (cases x) simp_all

lemma keeps_prod [keeps_rules]: "(\<And>a b. keeps I (f a b)) \<Longrightarrow> keeps I (case x of (a, b) \<Rightarrow> f a b)"
  by (cases x) simp

lemma confined_payment_create [keeps_rules]: "confined (Some t) (payment_create L t k a c)"
  unfolding payment_create_def count_payment_def validate_create_def ledger_append_def audit_write_def
    insert_payment_settlement_def Let_def
  by (intro keeps_rules; simp?)


lemma confined_refund_create [keeps_rules]: "confined (Some t) (refund_create L t p k a)"
  unfolding refund_create_def ledger_append_def audit_write_def insert_refund_settlement_def Let_def
  by (intro keeps_rules)

lemma confined_revoke [keeps_rules]: "confined (Some t) (revoke_api_key L t k)"
  unfolding revoke_api_key_def audit_write_def Let_def by (intro keeps_rules)

lemma confined_audit [keeps_rules]: "confined t (audit_ignored u e m)"
  unfolding audit_ignored_def audit_write_def Let_def by (intro keeps_rules)

lemma confined_reads [keeps_rules]:
  "confined t (payment_get a b)" "confined t (list_by_payment a b)" "confined t (refund_get a b)"
  "confined t (get_delivery L a b)" "confined t (list_deliveries a s n)" "confined t (list_api_keys a)"
  "confined t (get_name a)"
  unfolding payment_get_def list_by_payment_def refund_get_def get_delivery_def list_deliveries_def
    list_api_keys_def get_name_def Let_def
  by (intro keeps_rules)+

lemma db_only: "(\<And>w r v. m w = (r, v) \<Longrightarrow> w_db v = w_db w) \<Longrightarrow> confined t m"
  by (rule confinedI) (simp add: only_of_def)

lemma confined_publish [keeps_rules]: "confined t (publish_webhook_delivery L p u)"
proof (rule db_only)
  fix w r v assume "publish_webhook_delivery L p u w = (r, v)"
  then show "w_db v = w_db w"
    by (cases p; cases "case p of Broker q \<Rightarrow> q | NoOpPublisher \<Rightarrow> AzureServiceBus")
      (auto simp: op_ok_def redis_publish_webhook_delivery_def redis_lpush_def
        bus_publish_webhook_delivery_def bus_send_def split: fault.splits)
qed

lemma confined_require [keeps_rules]:
  "(\<And>t. cx_tenant c = Some t \<Longrightarrow> confined (Some t) (f t)) \<Longrightarrow> confined (cx_tenant c) (require_tenant_id f c)"
  unfolding require_tenant_id_def by (cases "cx_tenant c") (auto intro: keeps_rules)

lemma confined_handlers:
  "confined (cx_tenant c) (post_payment L c r)"
  "confined (cx_tenant c) (get_payment L x c r)"
  "confined (cx_tenant c) (post_refund L x c r)"
  "confined (cx_tenant c) (get_refund L x c r)"
  "confined (cx_tenant c) (patch_tenant_webhook L c r)"
  "confined (cx_tenant c) (list_webhook_deliveries L c r)"
  "confined (cx_tenant c) (get_webhook_delivery L x c r)"
  "confined (cx_tenant c) (post_webhook_delivery_retry L p x c r)"
  unfolding post_payment_def get_payment_def post_refund_def get_refund_def patch_tenant_webhook_def
    list_webhook_deliveries_def get_webhook_delivery_def post_webhook_delivery_retry_def Let_def
  by (intro keeps_rules)+

lemma confined_handlers':
  "confined (cx_tenant c) (get_tenants_me L c r)"
  "confined (cx_tenant c) (get_tenant_api_keys L c r)"
  "confined (cx_tenant c) (delete_tenant_api_key L x c r)"
  "confined (cx_tenant c) (post_dashboard_user L x c r)"
  unfolding get_tenants_me_def get_tenant_api_keys_def delete_tenant_api_key_def post_dashboard_user_def Let_def
  by (cases "cx_tenant c"; simp only: option.case; intro keeps_rules)+


text \<open>The tenant a request speaks for: its key's, or, on a route for the dashboard, its token's.\<close>

fun needs_key :: "route \<Rightarrow> bool" where
  "needs_key (PostUser t) \<longleftrightarrow> True"
| "needs_key PostPayment \<longleftrightarrow> True"
| "needs_key (GetPayment p) \<longleftrightarrow> True"
| "needs_key (PostRefund p) \<longleftrightarrow> True"
| "needs_key (GetRefund p) \<longleftrightarrow> True"
| "needs_key _ \<longleftrightarrow> False"

definition speaks_for :: "lib \<Rightarrow> server \<Rightarrow> time \<Rightarrow> request \<Rightarrow> db \<Rightarrow> uuid option" where
  "speaks_for L s now r d =
     (let raw = trim_space (rq_api_key r) in
     if raw \<noteq> [] then map_option fst (sql_active_key (hash_api_key L raw) d)
     else (case route_of r of
        None \<Rightarrow> None
      | Some x \<Rightarrow> if needs_key x then None
          else map_option fst (parse_dashboard_bearer L now (sv_secret s) (rq_authorization r))))"

lemma query_Pool_cases:
  assumes "query Pool f w = (res, v)"
  shows "w_db v = w_db w \<and> w_now v = w_now w \<and> (res = Inr (f (w_db w)) \<or> (\<exists>e. res = Inl e))"
  using assms by (auto simp: query_def exec_def split: if_splits)

lemma only_of_any: "confined t m \<Longrightarrow> w_db v = d \<Longrightarrow> only_of t d (w_db (snd (m v)))"
  by (auto simp: confined_def)

lemma confined_refusal: "confined t (op_then (audit_ignored u e m) (\<lambda>_. op_ok x))"
  by (intro keeps_rules)

lemma middleware_api_key_confined:
  assumes "\<And>c. confined (cx_tenant c) (next c r)"
  shows "only_of (if trim_space (rq_api_key r) = [] then None
      else map_option fst (sql_active_key (hash_api_key L (trim_space (rq_api_key r))) (w_db w)))
    (w_db w) (w_db (snd (middleware_api_key L next c r w)))"
proof (cases "trim_space (rq_api_key r) = []")
  case True
  then show ?thesis by (simp add: middleware_api_key_def op_ok_def)
next
  case False
  let ?f = "sql_active_key (hash_api_key L (trim_space (rq_api_key r)))"
  obtain res v where q: "query Pool ?f w = (res, v)" by (cases "query Pool ?f w")
  note qc = query_Pool_cases [OF q]
  show ?thesis
  proof (cases "\<exists>tid kid. res = Inr (Some (tid, kid))")
    case True
    then obtain tid kid where r: "res = Inr (Some (tid, kid))" by blast
    then have f: "?f (w_db w) = Some (tid, kid)" using qc by auto
    from only_of_any [OF assms [of "with_tenant_principal c tid PrincipalAPIKey kid"], of v "w_db w"] qc
    show ?thesis using False f r q
      by (simp add: middleware_api_key_def op_try_def with_tenant_principal_def)
  next
    case no: False
    have e: "snd (middleware_api_key L next c r w) = snd (op_then (audit_ignored None ''api_key_auth_failure''
        [(''reason'', JStr ''invalid_or_revoked'')]) (\<lambda>_. op_ok (http_error ''invalid_api_key'' 401)) v)"
      using False q no by (auto simp: middleware_api_key_def op_try_def split: sum.splits option.splits)
    show ?thesis unfolding e by (rule only_of_any [OF confined_refusal]) (simp add: qc)
  qed
qed

lemma me_auth_confined:
  assumes "\<And>c. confined (cx_tenant c) (next c r)"
  shows "only_of (if trim_space (rq_api_key r) \<noteq> []
      then map_option fst (sql_active_key (hash_api_key L (trim_space (rq_api_key r))) (w_db w))
      else map_option fst (parse_dashboard_bearer L (w_now w) secret (rq_authorization r)))
    (w_db w) (w_db (snd (me_auth L secret next c r w)))"
proof (cases "trim_space (rq_api_key r) = []")
  case True
  show ?thesis
  proof (cases "has_prefix (rq_authorization r) ''Bearer ''")
    case False
    with True show ?thesis by (simp add: me_auth_def op_ok_def)
  next
    case pre: True
    show ?thesis
    proof (cases "parse_dashboard_bearer L (w_now w) secret (rq_authorization r)")
      case None
      with True pre only_of_any [OF confined_refusal, of w "w_db w"] show ?thesis
        by (simp add: me_auth_def op_then_def [of "op_get w_now"] op_get_def)
    next
      case (Some tu)
      obtain tid uid where tu: "tu = (tid, uid)" by (cases tu)
      from only_of_any [OF assms [of "with_tenant_principal c tid PrincipalDashboard uid"], of w "w_db w"] True pre Some tu
      show ?thesis by (simp add: me_auth_def op_then_def op_get_def with_tenant_principal_def)
    qed
  qed
next
  case False
  let ?f = "sql_active_key (hash_api_key L (trim_space (rq_api_key r)))"
  obtain res v where q: "query Pool ?f w = (res, v)" by (cases "query Pool ?f w")
  note qc = query_Pool_cases [OF q]
  show ?thesis
  proof (cases "\<exists>tid kid. res = Inr (Some (tid, kid))")
    case True
    then obtain tid kid where r: "res = Inr (Some (tid, kid))" by blast
    then have f: "?f (w_db w) = Some (tid, kid)" using qc by auto
    from only_of_any [OF assms [of "with_tenant_principal c tid PrincipalAPIKey kid"], of v "w_db w"] qc
    show ?thesis using False f r q
      by (simp add: me_auth_def op_try_def with_tenant_principal_def)
  next
    case no: False
    have "snd (me_auth L secret next c r w) = v"
      using False q no by (auto simp: me_auth_def op_try_def op_ok_def split: sum.splits option.splits)
    then show ?thesis using qc by simp
  qed
qed

lemma confined_login: "confined None (post_auth_login L secret c r)"
  unfolding post_auth_login_def sign_dashboard_token_def Let_def
  by (intro keeps_rules)

lemma dispatch_confined:
  assumes "route_of r \<noteq> Some PostTenants"
  shows "only_of (speaks_for L s (w_now w) r (w_db w)) (w_db w) (w_db (snd (dispatch L s other c r w)))"
proof (cases "route_of r")
  case None
  then show ?thesis by (simp add: dispatch_def op_ok_def)
next
  case (Some x)
  note key = middleware_api_key_confined [where w = w and L = L and c = c and r = r]
  note me = me_auth_confined [where w = w and L = L and c = c and r = r and secret = "sv_secret s"]
  have weak: "only_of None d d' \<Longrightarrow> only_of t d d'" for t d d' by (simp add: only_of_def)
  have login: "only_of t (w_db w) (w_db (snd (post_auth_login L (sv_secret s) c r w)))" for t
    by (rule weak, rule only_of_any [OF confined_login refl])
  show ?thesis
  proof (cases x)
    case (PostUser y)
    with Some key [of "post_dashboard_user L y", OF confined_handlers'(4)] show ?thesis
      by (simp add: dispatch_def speaks_for_def Let_def split: if_splits)
  next
    case PostPayment
    with Some key [of "post_payment L", OF confined_handlers(1)] show ?thesis
      by (simp add: dispatch_def speaks_for_def Let_def split: if_splits)
  next
    case (GetPayment y)
    with Some key [of "get_payment L y", OF confined_handlers(2)] show ?thesis
      by (simp add: dispatch_def speaks_for_def Let_def split: if_splits)
  next
    case (PostRefund y)
    with Some key [of "post_refund L y", OF confined_handlers(3)] show ?thesis
      by (simp add: dispatch_def speaks_for_def Let_def split: if_splits)
  next
    case (GetRefund y)
    with Some key [of "get_refund L y", OF confined_handlers(4)] show ?thesis
      by (simp add: dispatch_def speaks_for_def Let_def split: if_splits)
  next
    case PatchWebhook
    with Some me [of "patch_tenant_webhook L", OF confined_handlers(5)] show ?thesis
      by (simp add: dispatch_def speaks_for_def Let_def split: if_splits)
  next
    case ListDeliveries
    with Some me [of "list_webhook_deliveries L", OF confined_handlers(6)] show ?thesis
      by (simp add: dispatch_def speaks_for_def Let_def split: if_splits)
  next
    case (GetDelivery y)
    with Some me [of "get_webhook_delivery L y", OF confined_handlers(7)] show ?thesis
      by (simp add: dispatch_def speaks_for_def Let_def split: if_splits)
  next
    case (RetryDelivery y)
    with Some me [of "post_webhook_delivery_retry L (sv_pub s) y", OF confined_handlers(8)] show ?thesis
      by (simp add: dispatch_def speaks_for_def Let_def split: if_splits)
  next
    case GetMe
    with Some me [of "get_tenants_me L", OF confined_handlers'(1)] show ?thesis
      by (simp add: dispatch_def speaks_for_def Let_def split: if_splits)
  next
    case GetKeys
    with Some me [of "get_tenant_api_keys L", OF confined_handlers'(2)] show ?thesis
      by (simp add: dispatch_def speaks_for_def Let_def split: if_splits)
  next
    case (DeleteKey y)
    with Some me [of "delete_tenant_api_key L y", OF confined_handlers'(3)] show ?thesis
      by (simp add: dispatch_def speaks_for_def Let_def split: if_splits)
  qed (use assms Some login in \<open>simp_all add: dispatch_def op_ok_def\<close>)
qed

lemma serve_snd:
  "w_db (snd (serve L s other r w)) =
     (if sv_cors s \<noteq> [] \<and> rq_method r = ''OPTIONS'' then w_db w
      else w_db (snd (dispatch L s other (with_request_id background (l_uuid_string L (w_uuid w (w_gen w)))) r
        (w\<lparr>w_gen := Suc (w_gen w)\<rparr>))))"
  by (auto simp: serve_def cors_middleware_def request_id_middleware_def request_logger_def
      new_request_id_def op_then_def op_ok_def op_get_def Let_def split: prod.splits sum.splits)

text \<open>A tenant's key, and a request that carries it.\<close>

definition sample_key :: api_key_row where
  "sample_key = \<lparr>key_id = 11, key_tenant = 1, key_hash = hash_api_key ref_lib ''pf_live_a'', key_prefix = ''pf_live_a'',
     key_created = 0, key_revoked = None\<rparr>"

definition ref_api_db :: db where
  "ref_api_db = (ref_paid_db ''succeeded'')\<lparr>api_keys := [sample_key]\<rparr>"

definition sample_request :: request where
  "sample_request = \<lparr>rq_method = ''POST'', rq_path = [''v1'', ''payments''], rq_api_key = '' pf_live_a'',
     rq_authorization = [], rq_idempotency_key = ''k2'', rq_origin = [], rq_status = [],
     rq_body = Json (JObj [(''amount_cents'', JNum 100), (''currency'', JStr ''eur'')])\<rparr>"

definition ref_server :: server where
  "ref_server = \<lparr>sv_secret = ''jwt'', sv_pub = NoOpPublisher, sv_cors = []\<rparr>"

lemma sample_route: "route_of sample_request = Some PostPayment"
  by code_simp

lemma sample_speaks_for: "speaks_for ref_lib ref_server 1000 sample_request ref_api_db = Some 1"
proof -
  have "trim_space (rq_api_key sample_request) = ''pf_live_a''" by code_simp
  then show ?thesis
    by (simp add: speaks_for_def ref_api_db_def sql_active_key_def sample_key_def)
qed



end
