(* ===== verification/Refinement.thy ===== *)
theory Refinement
  imports Steps Isolation
begin

text \<open>
  The code refines the abstract steps: every request and every turn of the worker's loop, whichever
  of its calls fail, takes the tables along a run of \<open>db_step\<close>. One rule per combinator
  (\<open>moves\<close>, collection \<open>keeps_rules\<close>), one lemma per transaction, then the handlers, the
  router and the loop by those rules; at the end the states the whole platform reaches.
\<close>

section \<open>Operations that make steps\<close>

text \<open>Whatever fails, the operation takes the tables along abstract steps.\<close>

definition moves :: "lib \<Rightarrow> 'a action \<Rightarrow> bool" where
  "moves L m \<longleftrightarrow> (\<forall>w. rows_ok (w_db w) \<longrightarrow> db_run L (w_db w) (w_db (snd (m w))))"

lemma movesI: "(\<And>w r v. rows_ok (w_db w) \<Longrightarrow> m w = (r, v) \<Longrightarrow> db_run L (w_db w) (w_db v)) \<Longrightarrow> moves L m"
  by (simp add: moves_def) (metis prod.collapse)

lemma movesD: "moves L m \<Longrightarrow> m w = (r, v) \<Longrightarrow> rows_ok (w_db w) \<Longrightarrow> db_run L (w_db w) (w_db v)"
  unfolding moves_def by (metis snd_conv)

lemma moves_run: "moves L m \<Longrightarrow> rows_ok (w_db w) \<Longrightarrow> db_run L (w_db w) (w_db (snd (m w)))"
  by (simp add: moves_def)

lemma moves_wp:
  assumes "\<And>w. rows_ok (w_db w) \<Longrightarrow> wp m (\<lambda>_ v. db_run L (w_db w) (w_db v)) (\<lambda>_ v. db_run L (w_db w) (w_db v)) w"
  shows "moves L m"
  using assms by (simp add: moves_def wp_state)

lemma moves_ok [keeps_rules]: "moves L (op_ok x)"
  by (rule movesI) (simp add: op_ok_def)

lemma moves_err [keeps_rules]: "moves L (op_err x)"
  by (rule movesI) (simp add: op_err_def)

lemma moves_get [keeps_rules]: "moves L (op_get f)"
  by (rule movesI) (simp add: op_get_def)

lemma moves_then [keeps_rules]: "moves L m \<Longrightarrow> (\<And>x. moves L (f x)) \<Longrightarrow> moves L (op_then m f)"
  by (rule movesI)
    (auto simp: op_then_def split: prod.splits sum.splits
      dest: movesD rows_ok_run rtranclp_trans intro: rtranclp_trans [OF movesD movesD] rows_ok_run [OF movesD])

lemma moves_try [keeps_rules]: "moves L m \<Longrightarrow> (\<And>r. moves L (h r)) \<Longrightarrow> moves L (op_try m h)"
  by (rule movesI)
    (auto simp: op_try_def split: prod.splits
      intro: rtranclp_trans [OF movesD movesD] rows_ok_run [OF movesD])

lemma moves_if [keeps_rules]: "moves L m \<Longrightarrow> moves L n \<Longrightarrow> moves L (if b then m else n)"
  by simp

lemma moves_option [keeps_rules]:
  "moves L m \<Longrightarrow> (\<And>y. moves L (f y)) \<Longrightarrow> moves L (case x of None \<Rightarrow> m | Some y \<Rightarrow> f y)"
  by (cases x) simp_all

lemma moves_sum [keeps_rules]:
  "(\<And>e. moves L (g e)) \<Longrightarrow> (\<And>y. moves L (f y)) \<Longrightarrow> moves L (case x of Inl e \<Rightarrow> g e | Inr y \<Rightarrow> f y)"
  by (cases x) simp_all

lemma moves_prod [keeps_rules]: "(\<And>a b. moves L (f a b)) \<Longrightarrow> moves L (case x of (a, b) \<Rightarrow> f a b)"
  by (cases x) simp

lemma moves_query [keeps_rules]: "moves L (query Pool f)"
  by (rule movesI) (auto simp: query_def exec_def split: if_splits)

text \<open>A statement through the pool that is one step.\<close>

lemma moves_exec [keeps_rules]:
  assumes "\<And>g d x d'. f g d = Inr (x, d') \<Longrightarrow> db_run L d d'"
  shows "moves L (exec Pool f)"
  by (rule moves_wp, intro wp_rules) (auto dest: assms)

lemma step_run: "db_step L d d' \<Longrightarrow> db_run L d d'"
  by blast

lemma moves_same:
  "(\<And>w r v. m w = (r, v) \<Longrightarrow> w_db v = w_db w) \<Longrightarrow> moves L m"
  by (rule movesI) simp

text \<open>The transactions.\<close>

lemma moves_payment_create [keeps_rules]: "moves L (payment_create L t k a c)"
proof (rule moves_wp)
  fix w :: world assume "rows_ok (w_db w)"
  then show "wp (payment_create L t k a c) (\<lambda>_ v. db_run L (w_db w) (w_db v)) (\<lambda>_ v. db_run L (w_db w) (w_db v)) w"
    by (intro wp_mono [OF payment_create_wp]) (auto simp: rows_ok_def split: if_splits intro: step_run payment_accepted)
qed

lemma moves_refund_create [keeps_rules]: "moves L (refund_create L t p k a)"
  by (rule moves_wp, rule wp_mono [OF refund_create_wp]) (auto split: if_splits intro: step_run refund_requested)

lemma moves_payment_settle [keeps_rules]: "moves L (payment_settle pid)"
  unfolding payment_settle_def
  by (rule moves_wp, rule wp_with_txI, simp, rule wp_thenI, rule wp_mono [OF payment_settle_tx_wp], rule wp_commitI)
    (auto intro: step_run payment_settles)

lemma moves_refund_settle [keeps_rules]: "moves L (refund_settle L rid)"
  unfolding refund_settle_def
  by (rule moves_wp, rule wp_with_txI, simp, rule wp_thenI, rule wp_mono [OF refund_settle_tx_wp], rule wp_commitI)
    (auto intro: step_run refund_settles)

lemma moves_outbox [keeps_rules]: "moves L (try_process_outbox L)"
  by (rule moves_wp, rule wp_mono [OF try_process_outbox_wp]) (auto dest!: outbox_step_serves intro: step_run outbox_served)

lemma moves_create_tenant [keeps_rules]: "moves L (create_tenant_with_api_key L name)"
  by (rule moves_wp, rule wp_mono [OF create_tenant_wp]) (auto intro: step_run onboarded)

lemma moves_revoke [keeps_rules]: "moves L (revoke_api_key L tid kid)"
  unfolding revoke_api_key_def
  by (rule moves_wp, intro wp_rules; (simp; fail)?)
    (auto simp: sql_revoke_key_def dest!: sql_insert_audit_ok intro!: step_run db_step.key_revoked)

lemma publish_tables: "publish_webhook_delivery L pub u w = (r, v) \<Longrightarrow> w_db v = w_db w \<and> w_tx v = w_tx w"
  by (cases pub; cases "case pub of Broker q \<Rightarrow> q | NoOpPublisher \<Rightarrow> AzureServiceBus")
    (auto simp: op_ok_def redis_publish_webhook_delivery_def redis_lpush_def
      bus_publish_webhook_delivery_def bus_send_def set_queue_def split: fault.splits)

lemma moves_publish [keeps_rules]: "moves L (publish_webhook_delivery L pub u)"
  by (rule moves_same) (blast dest: publish_tables)

lemma enqueue_delivery_db:
  "wp (enqueue_delivery L pub n)
    (\<lambda>_ v. w_db v = w_db w \<or> (\<exists>r. delivery_added n r (w_db w) (w_db v)))
    (\<lambda>_ v. w_db v = w_db w \<or> (\<exists>r. delivery_added n r (w_db w) (w_db v))) w"
  unfolding enqueue_delivery_def
proof (rule wp_with_txI, simp, rule wp_thenI, rule wp_exec_TxI, simp, goal_cases)
  case (1 v x d v1)
  have new: "delivery_added n row (w_db w) d" if "x = Some row" for row
    using 1 that sql_insert_delivery_Some [of n "gen_of v" "w_db w" row d]
    by (simp add: delivery_added_def delivery_row_def)
  show ?case
    using 1 sql_insert_delivery_None [of n "gen_of v" "w_db w" d]
    by (intro wp_optionI wp_thenI wp_commitI wpI) (auto dest!: publish_tables dest: new)
qed

lemma moves_enqueue_payment [keeps_rules]: "moves L (enqueue_payment_settled L pub pid)"
  unfolding enqueue_payment_settled_def
  by (rule moves_wp, intro wp_thenI wp_query_PoolI wp_optionI wp_prodI wp_okI; (simp; fail)?)
    (rule wp_mono [OF enqueue_delivery_db]; auto intro: step_run payment_notified)

lemma moves_enqueue_refund [keeps_rules]: "moves L (enqueue_refund_succeeded L pub rid)"
  unfolding enqueue_refund_succeeded_def
  by (rule moves_wp, intro wp_thenI wp_query_PoolI wp_optionI wp_prodI wp_okI; (simp; fail)?)
    (rule wp_mono [OF enqueue_delivery_db]; auto intro: step_run refund_notified)

lemma moves_audit [keeps_rules]: "moves L (audit_ignored u e m)"
  unfolding audit_ignored_def audit_write_def Let_def
  by (intro keeps_rules) (auto dest!: sql_insert_audit_ok intro!: step_run audited)

section \<open>Deliveries\<close>

lemma deliveries_update:
  assumes "\<And>r. r \<in> set (deliveries d) \<Longrightarrow> P r \<Longrightarrow> delivery_move r (f r)"
  shows "db_step L d (d\<lparr>deliveries := update_where P f (deliveries d)\<rparr>)"
proof -
  have "list_all2 (\<lambda>r r'. r' = r \<or> delivery_move r r') rs (update_where P f rs)"
    if "\<And>r. r \<in> set rs \<Longrightarrow> P r \<Longrightarrow> delivery_move r (f r)" for rs
    using that by (induction rs) (auto simp: update_where_def)
  from this [of "deliveries d", OF assms] have "deliveries_moved d (d\<lparr>deliveries := update_where P f (deliveries d)\<rparr>)"
    unfolding deliveries_moved_def by (intro exI [of _ "update_where P f (deliveries d)"]) simp
  then show ?thesis by (rule delivery_moves)
qed

lemma given_up_silently: "del_status r = ''pending'' \<Longrightarrow> delivery_move r (r\<lparr>del_status := ''dlq'', del_updated := t\<rparr>)"
proof -
  assume p: "del_status r = ''pending''"
  have e: "r\<lparr>del_status := ''dlq'', del_updated := t\<rparr> = r\<lparr>del_status := ''dlq'', del_error := del_error r, del_updated := t\<rparr>"
    by (cases r) simp
  show ?thesis unfolding e by (rule given_up [OF p])
qed

lemma failed_last:
  "del_status r = ''pending'' \<Longrightarrow> del_attempts r < max_attempts dm r \<Longrightarrow> del_attempts r + 1 \<ge> max_attempts dm r \<Longrightarrow>
   delivery_move r (r\<lparr>del_attempts := del_attempts r + 1, del_error := Some msg, del_status := ''dlq'', del_updated := t\<rparr>)"
  using failed [where r = r and dm = dm and msg = msg and t = t] by simp

lemma failed_more:
  "del_status r = ''pending'' \<Longrightarrow> \<not> del_attempts r + 1 \<ge> max_attempts dm r \<Longrightarrow>
   delivery_move r (r\<lparr>del_attempts := del_attempts r + 1, del_error := Some msg, del_status := ''pending'', del_updated := t\<rparr>)"
  using failed [where r = r and dm = dm and msg = msg and t = t] by simp

lemma give_up_step:
  "stmt = sql_give_up did \<or> stmt = sql_give_up_because did msg \<Longrightarrow> stmt g d = Inr ((), d') \<Longrightarrow> db_step L d d'"
  by (auto simp: sql_give_up_def sql_give_up_because_def update_pending_def
      intro!: deliveries_update given_up given_up_silently)

lemma after_reply_step:
  assumes "sql_after_reply dm did r reply g d = Inr ((), d')" and "sql_delivery_target did d = Some (r, t)"
    and "del_attempts r < max_attempts dm r" and "distinct (map del_id (deliveries d))"
  shows "db_step L d d'"
proof -
  have r: "r \<in> set (deliveries d)" "del_id r = did"
    using target_find [OF assms(2)] by (auto dest: find_Some_iff_in)
  have same: "x = r" if "x \<in> set (deliveries d)" "del_id x = did" for x
    using distinct_map_unique [OF assms(4) that(1) r(1)] that(2) r(2) by simp
  show ?thesis
    using assms(1,3)
    by (auto simp: sql_after_reply_def sql_delivered_def sql_attempt_failed_def update_pending_def
        intro!: deliveries_update dest!: same split: if_splits intro: delivered failed_last failed_more)
qed

lemma delivery_attempt_moves: "moves L (delivery_attempt L dm did)"
proof (rule movesI)
  fix w r v
  assume ok: "rows_ok (w_db w)" and at: "delivery_attempt L dm did w = (r, v)"
  from delivery_attempt_step [OF at] show "db_run L (w_db w) (w_db v)"
  proof cases
    case (gave_up r t stmt msg g)
    then show ?thesis by (intro step_run give_up_step)
  next
    case (recorded r t secret p reply g)
    from ok have "distinct (map del_id (deliveries (w_db w)))" by (simp add: rows_ok_def)
    from after_reply_step [OF recorded(9,1,4) this] show ?thesis by (rule step_run)
  qed simp_all
qed

lemma process_delivery_run:
  "process_delivery L dm did w = (r, v) \<Longrightarrow> rows_ok (w_db w) \<Longrightarrow> db_run L (w_db w) (w_db v)"
proof (induction L dm did w arbitrary: r v rule: process_delivery.induct)
  case (1 L dm did w)
  obtain r1 v1 where at: "delivery_attempt L dm did w = (r1, v1)" by (cases "delivery_attempt L dm did w")
  note one = movesD [OF delivery_attempt_moves at 1(3)]
  show ?case
  proof (cases "\<exists>n. r1 = Inr (Some n)")
    case False
    with 1(2) at have "v = v1"
      by (subst (asm) process_delivery.simps) (auto split: sum.splits option.splits)
    with one show ?thesis by simp
  next
    case True
    then obtain n where n: "r1 = Inr (Some n)" by blast
    obtain r2 v2 where wt: "wait_backoff n v1 = (r2, v2)" by (cases "wait_backoff n v1")
    note db = wait_backoff_db [OF wt]
    show ?thesis
    proof (cases r2)
      case (Inl e)
      with 1(2) at n wt have "v = v2" by (subst (asm) process_delivery.simps) simp
      with one db show ?thesis by simp
    next
      case (Inr u)
      with 1(2) at n wt have run: "process_delivery L dm did v2 = (r, v)"
        by (subst (asm) process_delivery.simps) simp
      have "rows_ok (w_db v2)" using rows_ok_run [OF one 1(3)] db by simp
      from 1(1) [OF at [symmetric] n refl wt [symmetric] Inr run this] one db show ?thesis by simp
    qed
  qed
qed

lemma moves_process_delivery [keeps_rules]: "moves L (process_delivery L dm did)"
  by (rule movesI) (rule process_delivery_run)

section \<open>The worker\<close>

lemma moves_sleep [keeps_rules]: "moves L (sleep t)"
  by (rule movesI) (auto simp: sleep_def op_mod_def)

lemma moves_logged [keeps_rules]: "moves L m \<Longrightarrow> moves L (logged m)"
  unfolding logged_def by (intro keeps_rules)

lemma moves_serve_job [keeps_rules]: "moves L (serve_job L q n job)"
  unfolding serve_job_def by (intro keeps_rules)

lemma bus_scan_tables: "bus_scan L t is w = (r, v) \<Longrightarrow> w_db v = w_db w \<and> w_tx v = w_tx w"
proof (induction "is" arbitrary: w)
  case Nil
  then show ?case by (simp add: op_ok_def)
next
  case (Cons idx rest)
  obtain res v1 where recv: "bus_receive (bus_receivers ! idx) t w = (res, v1)"
    by (cases "bus_receive (bus_receivers ! idx) t w")
  have one: "w_db v1 = w_db w \<and> w_tx v1 = w_tx w"
    using recv by (auto simp: bus_receive_def split: fault.splits if_splits)
  have compl: "w_db y = w_db x \<and> w_tx y = w_tx x" if "bus_complete q x = (s, y)" for q x s y
    using that by (auto simp: bus_complete_def set_queue_def split: fault.splits)
  have aband: "w_db y = w_db x \<and> w_tx y = w_tx x" if "bus_abandon q x = (s, y)" for q x s y
    using that by (auto simp: bus_abandon_def)
  have "bus_scan L t rest v1 = (r, v) \<or> w_db v = w_db v1 \<and> w_tx v = w_tx v1"
    using Cons.prems recv
    by (cases res)
      (auto simp: op_try_def op_then_def op_err_def op_ok_def split: if_splits list.splits option.splits
        prod.splits sum.splits dest: compl aband)
  with Cons.IH one show ?case by auto
qed

lemma bus_poll_tables: "bus_poll L deadline start w = (r, v) \<Longrightarrow> w_db v = w_db w \<and> w_tx v = w_tx w"
proof (induction L deadline start w rule: bus_poll.induct)
  case (1 L deadline start w)
  show ?case
  proof (cases "w_now w < deadline")
    case False
    with 1(2) show ?thesis by (subst (asm) bus_poll.simps) simp
  next
    case True
    obtain res x where scan: "bus_scan L (min 400000 (deadline - w_now w))
        [(start + 0) mod 3, (start + 1) mod 3, (start + 2) mod 3] w = (res, x)" by (metis surj_pair)
    note db = bus_scan_tables [OF scan]
    show ?thesis
    proof (cases "res = Inr None")
      case False
      with 1(2) True scan have "v = x"
        by (subst (asm) bus_poll.simps) (auto split: sum.splits option.splits)
      with db show ?thesis by simp
    next
      case none: True
      with 1(2) True scan have "bus_poll L deadline ((start + 1) mod 3) (x\<lparr>w_now := w_now x + 15000\<rparr>) = (r, v)"
        by (subst (asm) bus_poll.simps) simp
      from 1(1) [OF True scan [symmetric] none refl this] db show ?thesis by simp
    qed
  qed
qed

lemma br_pop_tables: "br_pop_job L q t w = (r, v) \<Longrightarrow> w_db v = w_db w \<and> w_tx v = w_tx w"
proof (cases q)
  case AzureServiceBus
  then show "br_pop_job L q t w = (r, v) \<Longrightarrow> ?thesis" by (simp add: bus_br_pop_job_def bus_poll_tables)
next
  case (Redis x)
  then show "br_pop_job L q t w = (r, v) \<Longrightarrow> ?thesis"
    by (auto simp: redis_br_pop_job_def redis_brpop_def op_then_def op_ok_def op_err_def set_queue_def
        split: fault.splits option.splits list.splits if_splits sum.splits prod.splits)
qed

lemma moves_br_pop_job [keeps_rules]: "moves L (br_pop_job L q t)"
  by (rule moves_same) (blast dest: br_pop_tables)

lemma moves_worker_turn [keeps_rules]: "moves L (worker_turn L q n)"
  unfolding worker_turn_def by (intro keeps_rules)

lemma moves_worker_turns: "moves L (worker_turns L q n k)"
  by (induction k) (auto intro: keeps_rules)


section \<open>The HTTP API\<close>

lemma moves_set_webhook [keeps_rules]: "moves L (exec Pool (sql_set_webhook t u s))"
  by (rule moves_exec) (auto simp: sql_set_webhook_def intro!: step_run webhook_set)

lemma moves_insert_user [keeps_rules]: "moves L (exec Pool (sql_insert_user t e h))"
  by (rule moves_exec) (auto simp: sql_insert_user_def split: if_splits intro!: step_run user_added)

lemma moves_revive [keeps_rules]: "moves L (exec Pool (sql_revive_delivery did t))"
  by (rule moves_exec) (auto simp: sql_revive_delivery_def intro!: step_run deliveries_update revived)

lemma moves_reads [keeps_rules]:
  "moves L (payment_get a b)" "moves L (list_by_payment a b)" "moves L (refund_get a b)"
  "moves L (get_delivery L' a b)" "moves L (list_deliveries a s n)" "moves L (list_api_keys a)"
  "moves L (get_name a)"
  unfolding payment_get_def list_by_payment_def refund_get_def get_delivery_def list_deliveries_def
    list_api_keys_def get_name_def Let_def
  by (intro keeps_rules)+

lemma moves_require [keeps_rules]:
  "(\<And>t. moves L (f t)) \<Longrightarrow> moves L (require_tenant_id f c)"
  unfolding require_tenant_id_def by (intro keeps_rules)

lemmas handler_defs =
  post_tenants_def get_tenants_me_def post_dashboard_user_def post_auth_login_def sign_dashboard_token_def
  get_tenant_api_keys_def delete_tenant_api_key_def post_payment_def get_payment_def post_refund_def
  get_refund_def patch_tenant_webhook_def list_webhook_deliveries_def get_webhook_delivery_def
  post_webhook_delivery_retry_def

lemma moves_key_auth [keeps_rules]: "(\<And>c. moves L (next c r)) \<Longrightarrow> moves L (middleware_api_key L next c r)"
  unfolding middleware_api_key_def Let_def by (intro keeps_rules)

lemma moves_me_auth [keeps_rules]: "(\<And>c. moves L (next c r)) \<Longrightarrow> moves L (me_auth L secret next c r)"
  unfolding me_auth_def Let_def by (intro keeps_rules)

lemma moves_handlers [keeps_rules]:
  "moves L (post_tenants L c r)" "moves L (get_tenants_me L c r)" "moves L (post_dashboard_user L y c r)"
  "moves L (post_auth_login L secret c r)" "moves L (get_tenant_api_keys L c r)"
  "moves L (delete_tenant_api_key L y c r)" "moves L (post_payment L c r)" "moves L (get_payment L y c r)"
  "moves L (post_refund L y c r)" "moves L (get_refund L y c r)" "moves L (patch_tenant_webhook L c r)"
  "moves L (list_webhook_deliveries L c r)" "moves L (get_webhook_delivery L y c r)"
  "moves L (post_webhook_delivery_retry L p y c r)"
  unfolding handler_defs Let_def by (intro keeps_rules)+

lemma moves_route: "moves L (serve_route L s x c r)"
  by (cases x; simp only: serve_route.simps; intro keeps_rules)

lemma moves_dispatch [keeps_rules]: "moves L (dispatch L s other c r)"
  unfolding dispatch_def by (intro keeps_rules moves_route)

lemma moves_serve: "moves L (serve L s other r)"
proof (rule movesI)
  fix w x v assume ok: "rows_ok (w_db w)" and run: "serve L s other r w = (x, v)"
  show "db_run L (w_db w) (w_db v)"
    using serve_snd [of L s other r w] moves_run [OF moves_dispatch, of "w\<lparr>w_gen := Suc (w_gen w)\<rparr>"] ok
    unfolding run by (auto split: if_splits)
qed

section \<open>The platform\<close>

text \<open>
  The states the platform reaches from empty tables: requests are served, the worker's loop
  turns, each with any failures, configuration and answers of the environment; between them
  everything but the tables may change (time passes, jobs are lost, duplicated or reordered,
  other processes restart).
\<close>

inductive platform :: "lib \<Rightarrow> world \<Rightarrow> bool" for L :: lib where
  start: "platform L w" if "w_db w = empty_db"
| request: "platform L (snd (serve L s other r w))" if "platform L w"
| turn: "platform L (snd (worker_turn L q n w))" if "platform L w"
| environment: "platform L v" if "platform L w" "w_db v = w_db w"

lemma rows_ok_empty: "rows_ok empty_db"
  by (simp add: rows_ok_def ledger_refs_def empty_db_def)

lemma platform_run: "platform L w \<Longrightarrow> db_run L empty_db (w_db w) \<and> rows_ok (w_db w)"
proof (induction rule: platform.induct)
  case (start w)
  then show ?case by (simp add: rows_ok_empty)
next
  case (request w s other r)
  with moves_run [OF moves_serve, of w L s other r] show ?case
    by (auto intro: rows_ok_run rtranclp_trans)
next
  case (turn w q n)
  with moves_run [OF moves_worker_turn, of w L q n] show ?case
    by (auto intro: rows_ok_run rtranclp_trans)
qed simp

text \<open>
  C3: the tables of a running platform, whatever is requested, whatever fails and whatever happens
  to the queues, are reached from the empty ones by business transactions alone: no partial effect
  of a request or of a job is ever committed.
\<close>

theorem platform_refines:
  assumes "platform L w"
  shows "db_run L empty_db (w_db w)"
  using platform_run [OF assms] by simp

definition sample_onboarding :: request where
  "sample_onboarding = \<lparr>rq_method = ''POST'', rq_path = [''v1'', ''tenants''], rq_api_key = [],
     rq_authorization = [], rq_idempotency_key = [], rq_origin = [], rq_status = [],
     rq_body = Json (JObj [(''name'', JStr ''Acme'')])\<rparr>"

text \<open>An onboarding whose commit is not acknowledged, then a turn of the worker.\<close>

theorem platform_refines_witness:
  "db_run ref_lib empty_db (w_db (snd (worker_turn ref_lib AzureServiceBus 5
     (snd (serve ref_lib ref_server (\<lambda>_. http_error [] 404) sample_onboarding
        (ref_world empty_db [NoFault, NoFault, NoFault, NoFault, NoFault, NoFault, LostAck]))))))"
  by (rule platform_refines, intro platform.turn platform.request platform.start) simp

end
