(* ===== verification/Consistency.thy ===== *)
theory Consistency
  imports Refinement
begin

text \<open>
  What the tables of the platform satisfy at every moment (\<open>consistent\<close>, \<open>accounted\<close>):
  every abstract step keeps it, so by the refinement every reachable state of the code has it,
  whichever calls fail.
\<close>

section \<open>Consistent tables\<close>

text \<open>The primary keys and unique constraints.\<close>

definition unique_keys :: "db \<Rightarrow> bool" where
  "unique_keys d \<longleftrightarrow> distinct (map pay_id (payments d)) \<and> distinct (map pay_idem (payments d)) \<and>
     distinct (map ref_id (refunds d)) \<and> distinct (map ref_idem (refunds d)) \<and>
     distinct (map led_key (ledger d)) \<and> distinct (map del_id (deliveries d)) \<and>
     distinct (map del_key (deliveries d)) \<and> distinct (map out_id (outbox d)) \<and>
     distinct (map ten_id (tenants d)) \<and> distinct (map key_hash (api_keys d))"

text \<open>
  A payment: pending or succeeded, with a positive amount, of a tenant that is there, accepted in the
  ledger, and settled in the ledger exactly when it has succeeded.
\<close>

definition payment_ok :: "db \<Rightarrow> payment \<Rightarrow> bool" where
  "payment_ok d p \<longleftrightarrow> pay_status p \<in> {''pending'', ''succeeded''} \<and> 0 < sint (pay_amount p) \<and>
     pay_tenant p \<in> ten_id ` set (tenants d) \<and>
     (pay_id p, ledger_payment_accepted) \<in> led_key ` set (ledger d) \<and>
     ((pay_id p, ledger_settlement_completed) \<in> led_key ` set (ledger d) \<longleftrightarrow> pay_status p = ''succeeded'')"

text \<open>
  A refund: pending or succeeded, with a positive amount, of a payment of the same tenant that has
  succeeded, requested in the ledger, and completed in the ledger exactly when it has succeeded.
\<close>

definition refund_ok :: "lib \<Rightarrow> db \<Rightarrow> refund \<Rightarrow> bool" where
  "refund_ok L d r \<longleftrightarrow> ref_status r \<in> {''pending'', ''succeeded''} \<and> 0 < sint (ref_amount r) \<and>
     (\<exists>p \<in> set (payments d). pay_id p = ref_payment r \<and> pay_tenant p = ref_tenant r \<and> pay_status p = ''succeeded'') \<and>
     (ref_payment r, refund_dedupe L (ref_id r) '':requested'') \<in> led_key ` set (ledger d) \<and>
     ((ref_payment r, refund_dedupe L (ref_id r) '':succeeded'') \<in> led_key ` set (ledger d) \<longleftrightarrow>
        ref_status r = ''succeeded'')"

text \<open>
  A delivery: one of three states, its attempts within its bound, and it reports something that has
  happened: a succeeded payment, or a succeeded refund.
\<close>

definition delivery_ok :: "db \<Rightarrow> delivery \<Rightarrow> bool" where
  "delivery_ok d r \<longleftrightarrow> del_status r \<in> {''pending'', ''succeeded'', ''dlq''} \<and>
     0 \<le> del_attempts r \<and> del_attempts r \<le> del_max r \<and> del_max r = 5 \<and>
     (case del_refund r of
        None \<Rightarrow> (\<exists>p \<in> set (payments d). Some (pay_id p) = del_payment r \<and> pay_tenant p = del_tenant r \<and>
                   pay_status p = ''succeeded'')
      | Some rid \<Rightarrow> (\<exists>x \<in> set (refunds d). ref_id x = rid \<and> ref_tenant x = del_tenant r \<and>
                   ref_status x = ''succeeded''))"

definition names_payment :: "lib \<Rightarrow> outbox_row \<Rightarrow> uuid \<Rightarrow> bool" where
  "names_payment L ob pid \<longleftrightarrow> out_kind ob = kind_payment_settlement \<and>
     out_payload ob = JObj [(''payment_id'', JStr (l_uuid_string L pid))]"

definition names_refund :: "lib \<Rightarrow> outbox_row \<Rightarrow> uuid \<Rightarrow> bool" where
  "names_refund L ob rid \<longleftrightarrow> out_kind ob = kind_refund_settlement \<and>
     out_payload ob = JObj [(''refund_id'', JStr (l_uuid_string L rid))]"

text \<open>
  The outbox: every row names a payment or a refund that is there, and everything still pending is
  named by a row still to be processed. No settlement is forgotten.
\<close>

definition outbox_ok :: "lib \<Rightarrow> db \<Rightarrow> bool" where
  "outbox_ok L d \<longleftrightarrow>
     (\<forall>ob \<in> set (outbox d). (\<exists>p \<in> set (payments d). names_payment L ob (pay_id p)) \<or>
        (\<exists>r \<in> set (refunds d). names_refund L ob (ref_id r))) \<and>
     (\<forall>p \<in> set (payments d). pay_status p = ''pending'' \<longrightarrow>
        (\<exists>ob \<in> set (outbox d). names_payment L ob (pay_id p) \<and> out_processed ob = None)) \<and>
     (\<forall>r \<in> set (refunds d). ref_status r = ''pending'' \<longrightarrow>
        (\<exists>ob \<in> set (outbox d). names_refund L ob (ref_id r) \<and> out_processed ob = None))"

text \<open>The ledger only tells of payments and refunds that are there.\<close>

definition event_ok :: "lib \<Rightarrow> db \<Rightarrow> uuid \<times> string \<Rightarrow> bool" where
  "event_ok L d k \<longleftrightarrow> fst k \<in> pay_id ` set (payments d) \<and>
     (snd k \<in> {ledger_payment_accepted, ledger_settlement_completed} \<or>
      (\<exists>r \<in> set (refunds d). ref_payment r = fst k \<and>
         snd k \<in> {refund_dedupe L (ref_id r) '':requested'', refund_dedupe L (ref_id r) '':succeeded''}))"

definition consistent :: "lib \<Rightarrow> db \<Rightarrow> bool" where
  "consistent L d \<longleftrightarrow> unique_keys d \<and> (\<forall>k \<in> led_key ` set (ledger d). event_ok L d k) \<and> (\<forall>p \<in> set (payments d). payment_ok d p) \<and>
     (\<forall>r \<in> set (refunds d). refund_ok L d r) \<and> (\<forall>x \<in> set (deliveries d). delivery_ok d x) \<and> outbox_ok L d"

text \<open>
  The money: as long as the amounts of the payments are below 2 ^ 62 cents, the pending and
  succeeded refunds of each are within it.
\<close>

definition accounted :: "db \<Rightarrow> bool" where
  "accounted d \<longleftrightarrow> (\<forall>p \<in> set (payments d). sint (pay_amount p) < 2 ^ 62) \<longrightarrow>
     (\<forall>p \<in> set (payments d). reserved_sum (pay_id p) d \<le> sint (pay_amount p))"

section \<open>Keys of the ledger\<close>

lemma dedupe_distinct:
  "refund_dedupe L r '':requested'' \<noteq> refund_dedupe L r' '':succeeded''"
  "refund_dedupe L r '':succeeded'' \<noteq> refund_dedupe L r' '':requested''"
  "ledger_payment_accepted \<noteq> refund_dedupe L r s" "ledger_settlement_completed \<noteq> refund_dedupe L r s"
  "refund_dedupe L r s \<noteq> ledger_payment_accepted" "refund_dedupe L r s \<noteq> ledger_settlement_completed"
  "ledger_settlement_completed \<noteq> ledger_payment_accepted" "ledger_payment_accepted \<noteq> ledger_settlement_completed"
  by (auto simp: refund_dedupe_def ledger_payment_accepted_def ledger_settlement_completed_def)

lemma dedupe_inj: "uuid_roundtrip L \<Longrightarrow> refund_dedupe L r s = refund_dedupe L r' s \<longleftrightarrow> r = r'"
  by (auto simp: refund_dedupe_def uuid_string_inj)

lemma names_inj:
  "uuid_roundtrip L \<Longrightarrow> names_payment L ob p \<Longrightarrow> names_payment L ob q \<Longrightarrow> p = q"
  "uuid_roundtrip L \<Longrightarrow> names_refund L ob p \<Longrightarrow> names_refund L ob q \<Longrightarrow> p = q"
  by (auto simp: names_payment_def names_refund_def uuid_string_inj)

lemma names_either: "names_payment L ob p \<Longrightarrow> \<not> names_refund L ob q"
  by (simp add: names_payment_def names_refund_def kind_payment_settlement_def kind_refund_settlement_def)

lemma event_added_keys: "event_added t k e old evs \<Longrightarrow> led_key ` set (old @ evs) = insert k (led_key ` set old)"
  by (cases "k \<in> led_key ` set old") (auto simp: event_added_def)

lemma event_added_distinct:
  "event_added t k e old evs \<Longrightarrow> distinct (map led_key old) \<Longrightarrow> distinct (map led_key (old @ evs))"
  by (cases "k \<in> led_key ` set old") (auto simp: event_added_def)

lemma bex_update_where [table_simps]:
  "(\<exists>q \<in> set (update_where P f xs). Q q) \<longleftrightarrow> (\<exists>r \<in> set xs. Q (if P r then f r else r))"
  by (auto simp: update_where_def)

section \<open>What carries over\<close>

text \<open>Succeeded payments and refunds stay.\<close>

definition kept :: "db \<Rightarrow> db \<Rightarrow> bool" where
  "kept d d' \<longleftrightarrow>
     (\<forall>p \<in> set (payments d). pay_status p = ''succeeded'' \<longrightarrow>
        (\<exists>p' \<in> set (payments d'). pay_id p' = pay_id p \<and> pay_tenant p' = pay_tenant p \<and> pay_status p' = ''succeeded'')) \<and>
     (\<forall>r \<in> set (refunds d). ref_status r = ''succeeded'' \<longrightarrow>
        (\<exists>r' \<in> set (refunds d'). ref_id r' = ref_id r \<and> ref_tenant r' = ref_tenant r \<and> ref_status r' = ''succeeded''))"

lemma kept_grow:
  "set (payments d) \<subseteq> set (payments d') \<Longrightarrow> set (refunds d) \<subseteq> set (refunds d') \<Longrightarrow> kept d d'"
  unfolding kept_def by blast

lemma payment_ok_kept:
  assumes "payment_ok d p" and "ten_id ` set (tenants d) \<subseteq> ten_id ` set (tenants d')"
    and "led_key ` set (ledger d) \<subseteq> led_key ` set (ledger d')"
    and "(pay_id p, ledger_settlement_completed) \<in> led_key ` set (ledger d') \<Longrightarrow>
      (pay_id p, ledger_settlement_completed) \<in> led_key ` set (ledger d)"
  shows "payment_ok d' p"
  using assms unfolding payment_ok_def by blast

lemma refund_ok_kept:
  assumes "refund_ok L d r" and "kept d d'" and "led_key ` set (ledger d) \<subseteq> led_key ` set (ledger d')"
    and "(ref_payment r, refund_dedupe L (ref_id r) '':succeeded'') \<in> led_key ` set (ledger d') \<Longrightarrow>
      (ref_payment r, refund_dedupe L (ref_id r) '':succeeded'') \<in> led_key ` set (ledger d)"
  shows "refund_ok L d' r"
proof -
  obtain p where "p \<in> set (payments d)" "pay_id p = ref_payment r" "pay_tenant p = ref_tenant r" "pay_status p = ''succeeded''"
    using assms(1) unfolding refund_ok_def by blast
  then have "\<exists>p \<in> set (payments d'). pay_id p = ref_payment r \<and> pay_tenant p = ref_tenant r \<and> pay_status p = ''succeeded''"
    using assms(2) unfolding kept_def by metis
  then show ?thesis using assms(1,3,4) unfolding refund_ok_def by blast
qed

lemma delivery_ok_kept:
  assumes "delivery_ok d x" and "kept d d'"
  shows "delivery_ok d' x"
proof (cases "del_refund x")
  case None
  then obtain p where "p \<in> set (payments d)" "Some (pay_id p) = del_payment x" "pay_tenant p = del_tenant x"
      "pay_status p = ''succeeded''"
    using assms(1) by (auto simp: delivery_ok_def)
  then have "\<exists>p \<in> set (payments d'). Some (pay_id p) = del_payment x \<and> pay_tenant p = del_tenant x \<and>
      pay_status p = ''succeeded''"
    using assms(2) unfolding kept_def by metis
  then show ?thesis using assms(1) None unfolding delivery_ok_def by simp
next
  case (Some rid)
  then obtain r where "r \<in> set (refunds d)" "ref_id r = rid" "ref_tenant r = del_tenant x" "ref_status r = ''succeeded''"
    using assms(1) by (auto simp: delivery_ok_def)
  then have "\<exists>r \<in> set (refunds d'). ref_id r = rid \<and> ref_tenant r = del_tenant x \<and> ref_status r = ''succeeded''"
    using assms(2) unfolding kept_def by metis
  then show ?thesis using assms(1) Some unfolding delivery_ok_def by simp
qed

lemma consistentD:
  assumes "consistent L d"
  shows "unique_keys d" "k \<in> led_key ` set (ledger d) \<Longrightarrow> event_ok L d k" "p \<in> set (payments d) \<Longrightarrow> payment_ok d p"
    "r \<in> set (refunds d) \<Longrightarrow> refund_ok L d r" "x \<in> set (deliveries d) \<Longrightarrow> delivery_ok d x" "outbox_ok L d"
  using assms unfolding consistent_def by blast+

lemma event_ok_kept:
  assumes "event_ok L d k" and "pay_id ` set (payments d) \<subseteq> pay_id ` set (payments d')"
    and "\<And>r. r \<in> set (refunds d) \<Longrightarrow> \<exists>r' \<in> set (refunds d'). ref_id r' = ref_id r \<and> ref_payment r' = ref_payment r"
  shows "event_ok L d' k"
proof -
  have "\<exists>r' \<in> set (refunds d'). ref_payment r' = fst k \<and>
      snd k \<in> {refund_dedupe L (ref_id r') '':requested'', refund_dedupe L (ref_id r') '':succeeded''}"
    if "r \<in> set (refunds d)" "ref_payment r = fst k"
      "snd k \<in> {refund_dedupe L (ref_id r) '':requested'', refund_dedupe L (ref_id r) '':succeeded''}" for r
    using assms(3) [OF that(1)] that(2,3) by auto
  then show ?thesis using assms(1,2) unfolding event_ok_def by blast
qed

section \<open>Accepting a payment\<close>

lemma consistent_accepted:
  assumes "consistent L d" and "accepted L t k amt c row d d'"
  shows "consistent L d'"
proof -
  note c = consistentD [OF assms(1)]
  obtain ev au ob where new: "pay_idem row = (t, scope_payment_create, k)" "pay_amount row = amt"
      "pay_status row = ''pending''" "(t, scope_payment_create, k) \<notin> pay_idem ` set (payments d)"
      "pay_id row \<notin> pay_id ` set (payments d)" "0 < sint amt" "t \<in> ten_id ` set (tenants d)"
    and ev: "led_key ev = (pay_id row, ledger_payment_accepted)"
    and ob: "out_id ob \<notin> out_id ` set (outbox d)" "names_payment L ob (pay_id row)" "out_processed ob = None"
    and d': "d' = d\<lparr>audits := audits d @ [au], payments := payments d @ [row], ledger := ledger d @ [ev], outbox := outbox d @ [ob]\<rparr>"
    using assms(2) unfolding accepted_def Let_def names_payment_def by blast
  have fresh: "(pay_id row, s) \<notin> led_key ` set (ledger d)" for s
    using c(2) new(5) unfolding event_ok_def by force
  have keep: "kept d d'" by (rule kept_grow) (auto simp: d')
  have "unique_keys d'"
    using c(1) new ob fresh by (simp add: unique_keys_def d' ev)
  moreover have "event_ok L d' k" if "k \<in> led_key ` set (ledger d')" for k
  proof (cases "k = led_key ev")
    case True
    then show ?thesis by (simp add: event_ok_def ev d')
  next
    case False
    then show ?thesis using that by (intro event_ok_kept [OF c(2)]) (auto simp: d')
  qed
  moreover have "payment_ok d' p" if "p \<in> set (payments d')" for p
  proof (cases "p = row")
    case True
    have "pay_tenant row = t" using new(1) by (simp add: pay_idem_def)
    then show ?thesis using new fresh True ev by (auto simp: payment_ok_def d' dedupe_distinct)
  next
    case False
    with that c(3) have "payment_ok d p" by (simp add: d')
    then show ?thesis by (rule payment_ok_kept) (auto simp: d' ev dedupe_distinct)
  qed
  moreover have "refund_ok L d' r" if "r \<in> set (refunds d')" for r
    using that keep by (intro refund_ok_kept [OF c(4)]) (auto simp: d' ev dedupe_distinct)
  moreover have "delivery_ok d' x" if "x \<in> set (deliveries d')" for x
    using that keep by (intro delivery_ok_kept [OF c(5)]) (auto simp: d')
  moreover have "outbox_ok L d'"
    using c(6) ob by (auto simp: outbox_ok_def d')
  ultimately show ?thesis by (simp add: consistent_def)
qed

section \<open>Settling a payment\<close>

lemma succeeded_stay:
  assumes "p \<in> set (payments d)" and "pay_status p = ''succeeded''"
  shows "p \<in> set (update_where (\<lambda>p. pay_id p = pid \<and> pay_status p = ''pending'') f (payments d))"
  using assms by (auto simp: in_update_where intro!: bexI [of _ p])

lemma settled_onceE:
  assumes "settled_once pid d d'"
  obtains p :: payment and now evs where "p \<in> set (payments d)" "pay_id p = pid" "pay_status p \<noteq> ''succeeded''"
    "event_added (pay_tenant p) (pid, ledger_settlement_completed) ledger_settlement_completed (ledger d) evs"
    "d' = d\<lparr>ledger := ledger d @ evs,
       payments := update_where (\<lambda>p. pay_id p = pid \<and> pay_status p = ''pending'')
         (\<lambda>p. p\<lparr>pay_status := ''succeeded'', pay_updated := now\<rparr>) (payments d)\<rparr>"
  using assms unfolding settled_once_def by (blast dest: find_Some_iff_in)

lemma consistent_settled:
  assumes "consistent L d" and "settled_once pid d d'"
  shows "consistent L d'"
proof -
  note c = consistentD [OF assms(1)]
  obtain p :: payment and now evs where p: "p \<in> set (payments d)" "pay_id p = pid" "pay_status p \<noteq> ''succeeded''"
    and evs: "event_added (pay_tenant p) (pid, ledger_settlement_completed) ledger_settlement_completed (ledger d) evs"
    and d': "d' = d\<lparr>ledger := ledger d @ evs, payments := update_where (\<lambda>p. pay_id p = pid \<and> pay_status p = ''pending'')
         (\<lambda>p. p\<lparr>pay_status := ''succeeded'', pay_updated := now\<rparr>) (payments d)\<rparr>"
    using settled_onceE [OF assms(2)] .
  have keys: "led_key ` set (ledger d') = insert (pid, ledger_settlement_completed) (led_key ` set (ledger d))"
    using event_added_keys [OF evs] by (simp add: d')
  have ten: "tenants d' = tenants d" by (simp add: d')
  have ids: "pay_id (p\<lparr>pay_status := s, pay_updated := u\<rparr>) = pay_id p"
    "pay_idem (p\<lparr>pay_status := s, pay_updated := u\<rparr>) = pay_idem p" for p :: payment and s u
    by (simp_all add: pay_idem_def)
  have keep: "kept d d'"
    unfolding kept_def d' by (auto intro: succeeded_stay bexI)
  have "unique_keys d'"
    using c(1) event_added_distinct [OF evs] by (simp add: unique_keys_def d' map_update_where ids)
  moreover have "event_ok L d' k" if k: "k \<in> led_key ` set (ledger d')" for k
  proof (cases "k = (pid, ledger_settlement_completed)")
    case True
    then show ?thesis using p by (auto simp: event_ok_def d' ids_update_where)
  next
    case False
    then have "k \<in> led_key ` set (ledger d)" using k unfolding keys by simp
    then show ?thesis by (intro event_ok_kept [OF c(2)]) (auto simp: d' ids_update_where)
  qed
  moreover have "payment_ok d' q'" if q': "q' \<in> set (payments d')" for q'
  proof -
    obtain q where q: "q \<in> set (payments d)" "q' = (if pay_id q = pid \<and> pay_status q = ''pending''
        then q\<lparr>pay_status := ''succeeded'', pay_updated := now\<rparr> else q)"
      using q' by (auto simp: d' in_update_where)
    show ?thesis
    proof (cases "pay_id q = pid")
      case True
      have "q = p" using distinct_map_unique [of pay_id "payments d" q p] c(1) q(1) p True by (simp add: unique_keys_def)
      then have "pay_status q = ''pending''" using c(3) [OF q(1)] p(3) by (auto simp: payment_ok_def)
      then show ?thesis using c(3) [OF q(1)] q(2) True keys by (auto simp: payment_ok_def d')
    next
      case False
      with q(2) have "q' = q" by simp
      show ?thesis
        unfolding \<open>q' = q\<close> using False by (intro payment_ok_kept [OF c(3) [OF q(1)]]) (auto simp: keys ten)
    qed
  qed
  moreover have "refund_ok L d' r" if "r \<in> set (refunds d')" for r
    using that keep keys by (intro refund_ok_kept [OF c(4)]) (auto simp: d' dedupe_distinct)
  moreover have "delivery_ok d' x" if "x \<in> set (deliveries d')" for x
    using that keep by (intro delivery_ok_kept [OF c(5)]) (auto simp: d')
  moreover have "outbox_ok L d'"
    using c(6) unfolding outbox_ok_def d' by (auto simp: ball_update_where bex_update_where if_distrib)
  ultimately show ?thesis by (simp add: consistent_def)
qed

section \<open>Refunds\<close>

lemma consistent_refund_accepted:
  assumes "uuid_roundtrip L" and "consistent L d" and "refund_accepted L t pid k amt row d d'"
  shows "consistent L d'"
proof -
  note c = consistentD [OF assms(2)]
  obtain p evs au ob where al: "refund_allowed t pid amt p d"
    and new: "ref_idem row = (t, scope_refund_create, k)" "ref_payment row = pid" "ref_amount row = amt"
      "ref_status row = ''pending''" "(t, scope_refund_create, k) \<notin> ref_idem ` set (refunds d)"
      "ref_id row \<notin> ref_id ` set (refunds d)"
    and evs: "event_added t (pid, refund_dedupe L (ref_id row) '':requested'') ledger_refund_requested (ledger d) evs"
    and ob: "out_id ob \<notin> out_id ` set (outbox d)" "names_refund L ob (ref_id row)" "out_processed ob = None"
    and d': "d' = d\<lparr>audits := audits d @ [au], ledger := ledger d @ evs, refunds := refunds d @ [row], outbox := outbox d @ [ob]\<rparr>"
    using assms(3) unfolding refund_accepted_def names_refund_def by blast
  note p = refund_allowed_row [OF al]
  have keys: "led_key ` set (ledger d') = insert (pid, refund_dedupe L (ref_id row) '':requested'') (led_key ` set (ledger d))"
    using event_added_keys [OF evs] by (simp add: d')
  have ten: "ref_tenant row = t" using new(1) by (simp add: ref_idem_def)
  have keep: "kept d d'" by (rule kept_grow) (auto simp: d')
  have "unique_keys d'"
    using c(1) new ob event_added_distinct [OF evs] by (simp add: unique_keys_def d')
  moreover have "event_ok L d' k" if k: "k \<in> led_key ` set (ledger d')" for k
  proof (cases "k = (pid, refund_dedupe L (ref_id row) '':requested'')")
    case True
    then show ?thesis using p new(2) by (auto simp: event_ok_def d')
  next
    case False
    then have "k \<in> led_key ` set (ledger d)" using k unfolding keys by simp
    then show ?thesis by (intro event_ok_kept [OF c(2)]) (auto simp: d')
  qed
  moreover have "payment_ok d' q" if "q \<in> set (payments d')" for q
    using that keys by (intro payment_ok_kept [OF c(3)]) (auto simp: d' dedupe_distinct)
  moreover have "refund_ok L d' r" if "r \<in> set (refunds d')" for r
  proof (cases "r = row")
    case True
    have "(pid, refund_dedupe L (ref_id row) '':succeeded'') \<notin> led_key ` set (ledger d)"
    proof
      assume "(pid, refund_dedupe L (ref_id row) '':succeeded'') \<in> led_key ` set (ledger d)"
      from c(2) [OF this] obtain r where "r \<in> set (refunds d)" "ref_id r = ref_id row"
        by (auto simp: event_ok_def dedupe_distinct dedupe_inj [OF assms(1)])
      with new(6) show False by (metis imageI)
    qed
    moreover have "payments d' = payments d" by (simp add: d')
    ultimately show ?thesis
      using True new p ten unfolding refund_ok_def keys by (auto simp: dedupe_distinct)
  next
    case False
    with that c(4) have "refund_ok L d r" by (simp add: d')
    then show ?thesis using keep by (rule refund_ok_kept) (auto simp: keys dedupe_distinct)
  qed
  moreover have "delivery_ok d' x" if "x \<in> set (deliveries d')" for x
    using that keep by (intro delivery_ok_kept [OF c(5)]) (auto simp: d')
  moreover have "outbox_ok L d'"
    using c(6) ob by (auto simp: outbox_ok_def d')
  ultimately show ?thesis by (simp add: consistent_def)
qed

lemma succeeded_refunds_stay:
  assumes "r \<in> set (refunds d)" and "ref_status r = ''succeeded''"
  shows "r \<in> set (update_where (\<lambda>r. ref_id r = rid \<and> ref_status r = ''pending'') f (refunds d))"
  using assms by (auto simp: in_update_where intro!: bexI [of _ r])

lemma refund_settled_onceE:
  assumes "refund_settled_once L rid d d'"
  obtains r :: refund and p now evs where "r \<in> set (refunds d)" "ref_id r = rid" "ref_status r = ''pending''"
    "ref_payment r \<in> pay_id ` set (payments d)"
    "event_added (ref_tenant r) (ref_payment r, refund_dedupe L rid '':succeeded'') ledger_refund_succeeded (ledger d) evs"
    "d' = d\<lparr>ledger := ledger d @ evs,
       refunds := update_where (\<lambda>r. ref_id r = rid \<and> ref_status r = ''pending'')
         (\<lambda>r. r\<lparr>ref_status := ''succeeded'', ref_updated := now\<rparr>) (refunds d)\<rparr>"
  using assms unfolding refund_settled_once_def by (blast dest: refund_with_payment_rows)

lemma consistent_refund_settled:
  assumes "uuid_roundtrip L" and "consistent L d" and "refund_settled_once L rid d d'"
  shows "consistent L d'"
proof -
  note c = consistentD [OF assms(2)]
  obtain r :: refund and now evs where r: "r \<in> set (refunds d)" "ref_id r = rid" "ref_status r = ''pending''"
      "ref_payment r \<in> pay_id ` set (payments d)"
    and evs: "event_added (ref_tenant r) (ref_payment r, refund_dedupe L rid '':succeeded'') ledger_refund_succeeded (ledger d) evs"
    and d': "d' = d\<lparr>ledger := ledger d @ evs, refunds := update_where (\<lambda>r. ref_id r = rid \<and> ref_status r = ''pending'')
         (\<lambda>r. r\<lparr>ref_status := ''succeeded'', ref_updated := now\<rparr>) (refunds d)\<rparr>"
    using refund_settled_onceE [OF assms(3)] .
  have keys: "led_key ` set (ledger d') = insert (ref_payment r, refund_dedupe L rid '':succeeded'') (led_key ` set (ledger d))"
    using event_added_keys [OF evs] by (simp add: d')
  have frame: "tenants d' = tenants d" "payments d' = payments d" by (simp_all add: d')
  have ids: "ref_id (r\<lparr>ref_status := s, ref_updated := u\<rparr>) = ref_id r"
    "ref_idem (r\<lparr>ref_status := s, ref_updated := u\<rparr>) = ref_idem r" for r :: refund and s u
    by (simp_all add: ref_idem_def)
  have keep: "kept d d'"
    unfolding kept_def d' by (auto intro: succeeded_refunds_stay bexI)
  have stay: "\<exists>y' \<in> set (refunds d'). ref_id y' = ref_id y \<and> ref_payment y' = ref_payment y"
    if "y \<in> set (refunds d)" for y
    using that by (auto simp: d' bex_update_where)
  have "unique_keys d'"
    using c(1) event_added_distinct [OF evs] by (simp add: unique_keys_def d' map_update_where ids)
  moreover have "event_ok L d' k" if k: "k \<in> led_key ` set (ledger d')" for k
  proof (cases "k = (ref_payment r, refund_dedupe L rid '':succeeded'')")
    case True
    then show ?thesis using r stay [OF r(1)] by (auto simp: event_ok_def frame)
  next
    case False
    then have "k \<in> led_key ` set (ledger d)" using k unfolding keys by simp
    then show ?thesis using stay by (intro event_ok_kept [OF c(2)]) (simp_all add: frame)
  qed
  moreover have "payment_ok d' q" if "q \<in> set (payments d')" for q
    using that by (intro payment_ok_kept [OF c(3)]) (auto simp: frame keys dedupe_distinct)
  moreover have "refund_ok L d' y'" if y': "y' \<in> set (refunds d')" for y'
  proof -
    obtain y where y: "y \<in> set (refunds d)" "y' = (if ref_id y = rid \<and> ref_status y = ''pending''
        then y\<lparr>ref_status := ''succeeded'', ref_updated := now\<rparr> else y)"
      using y' by (auto simp: d' in_update_where)
    show ?thesis
    proof (cases "ref_id y = rid")
      case True
      have "y = r" using distinct_map_unique [of ref_id "refunds d" y r] c(1) y(1) r True by (simp add: unique_keys_def)
      then show ?thesis using c(4) [OF y(1)] y(2) r(3) True by (auto simp: refund_ok_def keys frame)
    next
      case False
      with y(2) have "y' = y" by simp
      show ?thesis
        unfolding \<open>y' = y\<close> using keep False
        by (intro refund_ok_kept [OF c(4) [OF y(1)]]) (auto simp: keys dedupe_inj [OF assms(1)])
    qed
  qed
  moreover have "delivery_ok d' x" if "x \<in> set (deliveries d')" for x
    using that keep by (intro delivery_ok_kept [OF c(5)]) (auto simp: d')
  moreover have "outbox_ok L d'"
    using c(6) unfolding outbox_ok_def d' by (auto simp: ball_update_where bex_update_where if_distrib)
  ultimately show ?thesis by (simp add: consistent_def)
qed

section \<open>The outbox\<close>

text \<open>
  Marking a row keeps the tables consistent when what it names is no longer pending.
\<close>

lemma consistent_marked:
  assumes "uuid_roundtrip L" and "consistent L d" and ob: "ob \<in> set (outbox d)"
    and done_payment: "\<And>p. p \<in> set (payments d) \<Longrightarrow> names_payment L ob (pay_id p) \<Longrightarrow> pay_status p \<noteq> ''pending''"
    and done_refund: "\<And>r. r \<in> set (refunds d) \<Longrightarrow> names_refund L ob (ref_id r) \<Longrightarrow> ref_status r \<noteq> ''pending''"
  shows "consistent L (mark_processed (out_id ob) t d)"
proof -
  note c = consistentD [OF assms(2)]
  let ?d = "mark_processed (out_id ob) t d"
  have frame: "payments ?d = payments d" "refunds ?d = refunds d" "tenants ?d = tenants d" "ledger ?d = ledger d"
    "deliveries ?d = deliveries d" "api_keys ?d = api_keys d"
    by (simp_all add: mark_processed_def)
  have names: "names_payment L (x\<lparr>out_processed := s\<rparr>) = names_payment L x" "names_refund L (x\<lparr>out_processed := s\<rparr>) = names_refund L x" for x s
    by (simp_all add: names_payment_def names_refund_def fun_eq_iff)
  have same: "x = ob" if "x \<in> set (outbox d)" "out_id x = out_id ob" for x
    using distinct_map_unique [of out_id "outbox d" x ob] c(1) ob that by (simp add: unique_keys_def)
  have left: "x \<in> set (outbox ?d)" if "x \<in> set (outbox d)" "x \<noteq> ob" for x
    using that same by (auto simp: mark_processed_def in_update_where intro!: bexI [of _ x])
  have "unique_keys ?d"
    using c(1) by (simp add: unique_keys_def frame mark_processed_def map_update_where)
  moreover have "outbox_ok L ?d"
    unfolding outbox_ok_def frame
  proof (intro conjI ballI impI)
    fix x assume "x \<in> set (outbox ?d)"
    then obtain y where "y \<in> set (outbox d)" "x = (if out_id y = out_id ob then y\<lparr>out_processed := Some t\<rparr> else y)"
      by (auto simp: mark_processed_def in_update_where)
    with c(6) show "(\<exists>p \<in> set (payments d). names_payment L x (pay_id p)) \<or> (\<exists>r \<in> set (refunds d). names_refund L x (ref_id r))"
      by (auto simp: outbox_ok_def names)
  next
    fix p assume p: "p \<in> set (payments d)" "pay_status p = ''pending''"
    then obtain x where x: "x \<in> set (outbox d)" "names_payment L x (pay_id p)" "out_processed x = None"
      using c(6) by (auto simp: outbox_ok_def)
    with done_payment [OF p(1)] p(2) have "x \<noteq> ob" by blast
    with x left show "\<exists>x \<in> set (outbox ?d). names_payment L x (pay_id p) \<and> out_processed x = None" by blast
  next
    fix r assume r: "r \<in> set (refunds d)" "ref_status r = ''pending''"
    then obtain x where x: "x \<in> set (outbox d)" "names_refund L x (ref_id r)" "out_processed x = None"
      using c(6) by (auto simp: outbox_ok_def)
    with done_refund [OF r(1)] r(2) have "x \<noteq> ob" by blast
    with x left show "\<exists>x \<in> set (outbox ?d). names_refund L x (ref_id r) \<and> out_processed x = None" by blast
  qed
  ultimately show ?thesis
    using c unfolding consistent_def event_ok_def payment_ok_def refund_ok_def delivery_ok_def frame by blast
qed

lemma settled_not_pending:
  assumes "payment_settled (pay_id p) d" and "unique_keys d" and "p \<in> set (payments d)"
  shows "pay_status p \<noteq> ''pending''"
  using assms find_distinct [of pay_id "payments d" p] by (auto simp: payment_settled_def unique_keys_def)

lemma refund_settled_not_pending:
  assumes "refund_settled (ref_id r) d" and "unique_keys d" and "r \<in> set (refunds d)"
    and "ref_payment r \<in> pay_id ` set (payments d)"
  shows "ref_status r \<noteq> ''pending''"
proof -
  have f: "find (\<lambda>x. ref_id x = ref_id r) (refunds d) = Some r"
    using find_distinct [of ref_id "refunds d" r] assms(2,3) by (simp add: unique_keys_def)
  have "find (\<lambda>p. pay_id p = ref_payment r) (payments d) \<noteq> None"
    using assms(4) by (auto simp: find_None_in)
  then show ?thesis using assms(1) f by (auto simp: refund_settled_def sql_refund_with_payment_def)
qed

lemma refund_ok_payment: "refund_ok L d r \<Longrightarrow> ref_payment r \<in> pay_id ` set (payments d)"
  unfolding refund_ok_def by (metis imageI)

lemma names_payment_field:
  "names_payment L ob pid \<Longrightarrow> string_field ''payment_id'' (out_payload ob) = Some (l_uuid_string L pid)"
  by (simp add: names_payment_def)

lemma names_refund_field:
  "names_refund L ob rid \<Longrightarrow> string_field ''refund_id'' (out_payload ob) = Some (l_uuid_string L rid)"
  by (simp add: names_refund_def)

lemma consistent_outbox:
  assumes "uuid_roundtrip L" and "consistent L d" and "outbox_serves L ob fu d d'"
  shows "consistent L d'"
proof -
  obtain d1 t where ob: "ob \<in> set (outbox d)" and row: "row_settled L ob fu d d1"
    and d': "d' = mark_processed (out_id ob) t d1"
    using assms(3) by (auto simp: outbox_serves_def)
  from row consider
    (payment) s pid where "out_kind ob = kind_payment_settlement" "string_field ''payment_id'' (out_payload ob) = Some s"
      "l_uuid_parse L s = Some pid" "settled_once pid d d1 \<or> payment_settled pid d \<and> d1 = d"
  | (refund) s rid where "out_kind ob = kind_refund_settlement" "string_field ''refund_id'' (out_payload ob) = Some s"
      "l_uuid_parse L s = Some rid" "refund_settled_once L rid d d1 \<or> refund_settled rid d \<and> d1 = d"
    unfolding row_settled_def by blast
  then show ?thesis
  proof cases
    case k: payment
    then have c1: "consistent L d1" and s1: "payment_settled pid d1" and o1: "outbox d1 = outbox d"
      using consistent_settled [OF assms(2)] assms(2) settled_once_settled by (auto elim: settled_onceE)
    show ?thesis
      unfolding d'
    proof (rule consistent_marked [OF assms(1) c1])
      show "ob \<in> set (outbox d1)" using ob o1 by simp
      show "pay_status p \<noteq> ''pending''" if "p \<in> set (payments d1)" "names_payment L ob (pay_id p)" for p
      proof -
        have "pay_id p = pid" using k(2,3) names_payment_field [OF that(2)] uuid_roundtripD [OF assms(1), of "pay_id p"] by simp
        then show ?thesis using settled_not_pending [of p d1] s1 consistentD(1) [OF c1] that(1) by simp
      qed
      show "ref_status r \<noteq> ''pending''" if "names_refund L ob (ref_id r)" for r :: refund
        using that k(1) by (simp add: names_refund_def kind_payment_settlement_def kind_refund_settlement_def)
    qed
  next
    case k: refund
    then have c1: "consistent L d1" and s1: "refund_settled rid d1" and o1: "outbox d1 = outbox d"
      using consistent_refund_settled [OF assms(1,2)] assms(2) refund_settled_once_settled
      by (auto elim: refund_settled_onceE)
    show ?thesis
      unfolding d'
    proof (rule consistent_marked [OF assms(1) c1])
      show "ob \<in> set (outbox d1)" using ob o1 by simp
      show "ref_status r \<noteq> ''pending''" if r: "r \<in> set (refunds d1)" "names_refund L ob (ref_id r)" for r
      proof -
        have "ref_id r = rid" using k(2,3) names_refund_field [OF r(2)] uuid_roundtripD [OF assms(1), of "ref_id r"] by simp
        moreover have "ref_payment r \<in> pay_id ` set (payments d1)"
          by (rule refund_ok_payment [OF consistentD(4) [OF c1 r(1)]])
        ultimately show ?thesis using refund_settled_not_pending [of r d1] s1 consistentD(1) [OF c1] r(1) by simp
      qed
      show "pay_status p \<noteq> ''pending''" if "names_payment L ob (pay_id p)" for p :: payment
        using that k(1) by (simp add: names_payment_def kind_payment_settlement_def kind_refund_settlement_def)
    qed
  qed
qed

section \<open>Deliveries and tenants\<close>

lemma consistent_framed:
  assumes "consistent L d" and "payments d' = payments d" "refunds d' = refunds d" "ledger d' = ledger d"
      "outbox d' = outbox d"
    and "ten_id ` set (tenants d) \<subseteq> ten_id ` set (tenants d')" and "unique_keys d'"
    and "\<And>x. x \<in> set (deliveries d') \<Longrightarrow> delivery_ok d x"
  shows "consistent L d'"
proof -
  note c = consistentD [OF assms(1)]
  note frame = assms(2-5)
  have keep: "kept d d'" by (rule kept_grow) (simp_all add: frame)
  have "payment_ok d' p" if "p \<in> set (payments d')" for p
    using that assms(6) by (intro payment_ok_kept [OF c(3)]) (simp_all add: frame)
  moreover have "delivery_ok d' x" if "x \<in> set (deliveries d')" for x
    using delivery_ok_kept [OF assms(8) [OF that] keep] .
  ultimately show ?thesis
    using c assms(7) unfolding consistent_def event_ok_def refund_ok_def outbox_ok_def frame by blast
qed

lemma consistent_delivery_added:
  assumes "consistent L d" and "delivery_added n r d d'" and "delivery_ok d r"
  shows "consistent L d'"
proof -
  have d': "d' = d\<lparr>deliveries := deliveries d @ [r]\<rparr>" and k: "del_key r \<notin> del_key ` set (deliveries d)"
      "del_id r \<notin> del_id ` set (deliveries d)"
    using assms(2) by (auto simp: delivery_added_def delivery_row_def)
  show ?thesis
    using consistentD(1) [OF assms(1)] k
    by (intro consistent_framed [OF assms(1)]) (auto simp: d' unique_keys_def intro: assms(3) consistentD(5) [OF assms(1)])
qed

lemma delivery_move_key: "delivery_move r r' \<Longrightarrow> del_key r' = del_key r"
  by (induction rule: delivery_move.induct) (simp_all add: del_key_def)

lemma delivery_move_ok: "delivery_move r r' \<Longrightarrow> delivery_ok d r \<Longrightarrow> delivery_ok d r'"
  by (induction rule: delivery_move.induct) (auto simp: delivery_ok_def max_attempts_def split: option.splits)

lemma consistent_deliveries_moved:
  assumes "consistent L d" and "deliveries_moved d d'"
  shows "consistent L d'"
proof -
  obtain ds where ds: "list_all2 (\<lambda>r r'. r' = r \<or> delivery_move r r') (deliveries d) ds" "d' = d\<lparr>deliveries := ds\<rparr>"
    using assms(2) by (auto simp: deliveries_moved_def)
  from ds(1) have keys: "map del_key ds = map del_key (deliveries d)"
    by (induction rule: list_all2_induct) (auto simp: delivery_move_key)
  have ids: "map del_id ds = map del_id (deliveries d)"
    using deliveries_moved_ids [OF assms(2)] by (simp add: ds(2))
  have ok: "delivery_ok d x" if "x \<in> set ds" for x
  proof -
    obtain i where i: "i < length ds" "x = ds ! i" using \<open>x \<in> set ds\<close> by (auto simp: in_set_conv_nth)
    then have "deliveries d ! i \<in> set (deliveries d)" "x = deliveries d ! i \<or> delivery_move (deliveries d ! i) x"
      using ds(1) by (simp_all add: list_all2_conv_all_nth)
    with consistentD(5) [OF assms(1)] delivery_move_ok show ?thesis by blast
  qed
  show ?thesis
    using consistentD(1) [OF assms(1)] ok
    by (intro consistent_framed [OF assms(1)]) (simp_all add: ds(2) unique_keys_def keys ids)
qed

section \<open>Every step keeps the tables consistent\<close>

lemma settled_payment_delivery_ok:
  assumes "sql_settled_payment pid d = Some (p, t)" and "delivery_added (payment_delivery L p url) r d d'"
  shows "delivery_ok d r"
proof -
  have "delivery_row (payment_delivery L p url) r" using assms(2) by (simp add: delivery_added_def)
  then show ?thesis
    using settled_payment_row [OF assms(1)]
    by (auto simp: delivery_ok_def delivery_row_def payment_delivery_def del_key_def intro!: bexI [of _ p])
qed

lemma succeeded_refund_row:
  "sql_succeeded_refund rid d = Some (r, t) \<Longrightarrow> r \<in> set (refunds d) \<and> ref_id r = rid \<and> ref_status r = ''succeeded''"
  by (auto simp: sql_succeeded_refund_def split: option.splits dest!: find_Some_iff_in)

lemma succeeded_refund_delivery_ok:
  assumes "sql_succeeded_refund rid d = Some (rf, t)" and "delivery_added (refund_delivery L rf url) r d d'"
  shows "delivery_ok d r"
proof -
  have "delivery_row (refund_delivery L rf url) r" using assms(2) by (simp add: delivery_added_def)
  then show ?thesis
    using succeeded_refund_row [OF assms(1)]
    by (auto simp: delivery_ok_def delivery_row_def refund_delivery_def del_key_def intro!: bexI [of _ rf])
qed

lemma consistent_step:
  assumes "db_step L d d'" and "uuid_roundtrip L" and "consistent L d"
  shows "consistent L d'"
  using assms(1)
proof cases
  case payment_accepted
  then show ?thesis by (rule consistent_accepted [OF assms(3)])
next
  case payment_settles
  then show ?thesis by (rule consistent_settled [OF assms(3)])
next
  case refund_requested
  then show ?thesis by (rule consistent_refund_accepted [OF assms(2,3)])
next
  case refund_settles
  then show ?thesis by (rule consistent_refund_settled [OF assms(2,3)])
next
  case outbox_served
  then show ?thesis by (rule consistent_outbox [OF assms(2,3)])
next
  case payment_notified
  then show ?thesis by (intro consistent_delivery_added [OF assms(3)] settled_payment_delivery_ok)
next
  case refund_notified
  then show ?thesis by (intro consistent_delivery_added [OF assms(3)] succeeded_refund_delivery_ok)
next
  case delivery_moves
  then show ?thesis by (rule consistent_deliveries_moved [OF assms(3)])
next
  case onboarded
  then show ?thesis
    using consistentD(1) [OF assms(3)]
    by (intro consistent_framed [OF assms(3)])
      (auto simp: tenant_created_def unique_keys_def intro: consistentD(5) [OF assms(3)])
qed (use consistentD(1) [OF assms(3)] in \<open>intro consistent_framed [OF assms(3)];
      auto simp: unique_keys_def map_update_where ids_update_where intro: consistentD(5) [OF assms(3)]\<close>)+

section \<open>The money\<close>

lemma reserved_sum_settled:
  "reserved_sum pid (d\<lparr>ledger := le, refunds := update_where (\<lambda>r. ref_id r = rid \<and> ref_status r = ''pending'')
     (\<lambda>r. r\<lparr>ref_status := ''succeeded'', ref_updated := now\<rparr>) (refunds d)\<rparr>) = reserved_sum pid d"
proof -
  have "sum_list (map (\<lambda>r. sint (ref_amount r)) (filter (counts_for pid)
      (update_where (\<lambda>r. ref_id r = rid \<and> ref_status r = ''pending'')
        (\<lambda>r. r\<lparr>ref_status := ''succeeded'', ref_updated := now\<rparr>) rs))) =
    sum_list (map (\<lambda>r. sint (ref_amount r)) (filter (counts_for pid) rs))" for rs :: "refund list"
    by (induction rs) (auto simp: update_where_def counts_for_def)
  then show ?thesis by (simp add: reserved_sum_def)
qed

lemma reserved_sum_same: "refunds d' = refunds d \<Longrightarrow> reserved_sum pid d' = reserved_sum pid d"
  by (simp add: reserved_sum_def)

lemma accounted_same: "payments d' = payments d \<Longrightarrow> refunds d' = refunds d \<Longrightarrow> accounted d' = accounted d"
  by (simp add: accounted_def reserved_sum_def)

lemma accounted_accepted:
  assumes "consistent L d" and "accounted d" and "accepted L t k amt c row d d'"
  shows "accounted d'"
proof -
  have d': "payments d' = payments d @ [row]" "refunds d' = refunds d" and new: "pay_id row \<notin> pay_id ` set (payments d)"
      "0 < sint (pay_amount row)"
    using assms(3) unfolding accepted_def Let_def by auto
  have "\<not> counts_for (pay_id row) r" if "r \<in> set (refunds d)" for r
    using refund_ok_payment [OF consistentD(4) [OF assms(1) that]] new(1) by (auto simp: counts_for_def)
  then have "reserved_sum (pay_id row) d' = 0"
    by (simp add: reserved_sum_def d' filter_False)
  then show ?thesis
    using assms(2) new(2) by (auto simp: accounted_def d' reserved_sum_same [OF d'(2)])
qed

lemma accounted_settled: "settled_once pid d d' \<Longrightarrow> accounted d \<Longrightarrow> accounted d'"
  by (erule settled_onceE)
    (auto simp: accounted_def reserved_sum_def ball_update_where if_distrib cong: if_cong)

lemma accounted_refund_settled: "refund_settled_once L rid d d' \<Longrightarrow> accounted d \<Longrightarrow> accounted d'"
  by (erule refund_settled_onceE) (simp add: accounted_def reserved_sum_settled)

lemma accounted_refund:
  assumes "consistent L d" and "accounted d" and "refund_accepted L t pid k amt row d d'"
  shows "accounted d'"
proof (cases "\<forall>p \<in> set (payments d'). sint (pay_amount p) < 2 ^ 62")
  case False
  then show ?thesis unfolding accounted_def by blast
next
  case True
  have "payments d' = payments d" using assms(3) unfolding refund_accepted_def by auto
  then have "refunds_within d"
    using True assms(2) consistentD(4) [OF assms(1)] by (auto simp: refunds_within_def accounted_def refund_ok_def)
  from refund_accepted_within [OF assms(3) this] consistentD(1) [OF assms(1)] show ?thesis
    by (simp add: refunds_within_def accounted_def unique_keys_def)
qed

lemma accounted_mark [simp]: "accounted (mark_processed oid t d) = accounted d"
  by (rule accounted_same) (simp_all add: mark_processed_def)

lemma accounted_step:
  assumes "db_step L d d'" and "consistent L d" and "accounted d"
  shows "accounted d'"
  using assms(1)
proof cases
  case payment_accepted
  then show ?thesis by (rule accounted_accepted [OF assms(2,3)])
next
  case payment_settles
  then show ?thesis using assms(3) by (rule accounted_settled)
next
  case refund_requested
  then show ?thesis by (rule accounted_refund [OF assms(2,3)])
next
  case refund_settles
  then show ?thesis using assms(3) by (rule accounted_refund_settled)
next
  case outbox_served
  then show ?thesis
    using assms(3) by (auto simp: outbox_serves_def row_settled_def intro: accounted_settled accounted_refund_settled)
qed (use assms(3) in \<open>auto simp: delivery_added_def deliveries_moved_def tenant_created_def
      intro: accounted_same [THEN iffD2]\<close>)

lemma consistent_empty: "consistent L empty_db \<and> accounted empty_db"
  by (simp add: consistent_def unique_keys_def outbox_ok_def accounted_def empty_db_def)

lemma consistent_run:
  assumes "db_run L d d'" and "uuid_roundtrip L" and "consistent L d \<and> accounted d"
  shows "consistent L d' \<and> accounted d'"
  using assms(1,3) by (induction rule: rtranclp_induct) (auto intro: consistent_step [OF _ assms(2)] accounted_step)

section \<open>The platform's tables\<close>

text \<open>
  C4: at every moment, whatever has been requested and whatever has failed, every payment and every
  refund is pending or succeeded and its ledger says so exactly, each refund belongs to a succeeded
  payment of the same tenant, each delivery reports something that has happened within its number
  of attempts, and everything still pending is named by an unprocessed row of the outbox.
\<close>

theorem platform_consistent:
  assumes "uuid_roundtrip L" and "platform L w"
  shows "consistent L (w_db w)"
  using consistent_run [OF _ assms(1) consistent_empty] platform_run [OF assms(2)] by blast

theorem platform_consistent_witness:
  "consistent ref_lib (w_db (snd (worker_turn ref_lib AzureServiceBus 5
     (snd (serve ref_lib ref_server (\<lambda>_. http_error [] 404) sample_onboarding
        (ref_world empty_db []))))))"
  by (rule platform_consistent [OF ref_lib_roundtrip], intro platform.turn platform.request platform.start) simp

text \<open>
  C5: at every moment the refunds of a payment, pending or succeeded, are within its amount, as long
  as no payment is of 2 ^ 62 cents or more.
\<close>

theorem platform_accounted:
  assumes "uuid_roundtrip L" and "platform L w"
  shows "accounted (w_db w)"
  using consistent_run [OF _ assms(1) consistent_empty] platform_run [OF assms(2)] by blast

theorem platform_accounted_witness:
  "accounted (w_db (snd (worker_turn ref_lib AzureServiceBus 5
     (snd (serve ref_lib ref_server (\<lambda>_. http_error [] 404) sample_request
        (ref_world empty_db [NoFault, Fails]))))))"
  by (rule platform_accounted [OF ref_lib_roundtrip], intro platform.turn platform.request platform.start) simp

end
