(* ===== verification/Progress.thy ===== *)
theory Progress
  imports Consistency
begin

text \<open>
  The worker gets everything done: in consistent tables, when no call fails, each turn of its loop
  serves one row of the outbox, and when the outbox is empty no payment and no refund is pending.
\<close>

section \<open>What the worker keeps\<close>

text \<open>A predicate on the tables that the worker's statements keep is kept by its loop.\<close>

definition worker_statements :: "(db \<Rightarrow> bool) \<Rightarrow> bool" where
  "worker_statements D \<longleftrightarrow>
     (\<forall>t p k e j. stmt_keeps D (sql_insert_ledger t p k e j)) \<and> (\<forall>p. stmt_keeps D (sql_settle_payment p)) \<and>
     (\<forall>r. stmt_keeps D (sql_settle_refund r)) \<and> (\<forall>x. stmt_keeps D (sql_mark_processed x)) \<and>
     (\<forall>n. stmt_keeps D (sql_insert_delivery n)) \<and> (\<forall>i f. stmt_keeps D (update_pending i f))"

lemma worker_statementsD [keeps_rules]:
  assumes "worker_statements D"
  shows "stmt_keeps D (sql_insert_ledger t p k e j)" "stmt_keeps D (sql_settle_payment p)"
    "stmt_keeps D (sql_settle_refund p)" "stmt_keeps D (sql_mark_processed p)"
    "stmt_keeps D (sql_insert_delivery n)" "stmt_keeps D (sql_give_up p)" "stmt_keeps D (sql_give_up_because p m)"
    "stmt_keeps D (sql_delivered p)" "stmt_keeps D (sql_attempt_failed p i m s)"
  using assms by (simp_all add: worker_statements_def sql_give_up_def sql_give_up_because_def sql_delivered_def
      sql_attempt_failed_def)

lemma keeps_db_same: "(\<And>w r v. m w = (r, v) \<Longrightarrow> w_db v = w_db w \<and> w_tx v = w_tx w) \<Longrightarrow> keeps (on_db D) m"
  by (rule keepsI) (simp add: on_db_def)

lemma keeps_settle_tx [keeps_rules]:
  assumes "worker_statements D"
  shows "keeps (on_db D) (payment_settle_tx pid)" "keeps (on_db D) (refund_settle_tx L rid)"
  unfolding payment_settle_tx_def refund_settle_tx_def ledger_append_def Let_def
  by (intro keeps_rules assms)+

lemma keeps_outbox [keeps_rules]:
  assumes "worker_statements D"
  shows "keeps (on_db D) (try_process_outbox L)"
  unfolding try_process_outbox_def settle_outbox_row_def
  by (intro keeps_rules assms)

lemma keeps_enqueue [keeps_rules]:
  assumes "worker_statements D"
  shows "keeps (on_db D) (enqueue_payment_settled L pub pid)" "keeps (on_db D) (enqueue_refund_succeeded L pub rid)"
  unfolding enqueue_payment_settled_def enqueue_refund_succeeded_def enqueue_delivery_def
  by (intro keeps_rules assms keeps_db_same publish_tables; assumption)+

lemma keeps_settle [keeps_rules]:
  assumes "worker_statements D"
  shows "keeps (on_db D) (payment_settle pid)" "keeps (on_db D) (refund_settle L rid)"
  unfolding payment_settle_def refund_settle_def
  by (intro keeps_rules assms)+

lemma keeps_attempt:
  assumes "worker_statements D"
  shows "keeps (on_db D) (delivery_attempt L dm did)"
  unfolding delivery_attempt_def Let_def
  by (intro keeps_rules assms keeps_db_same) (simp add: http_post_def)

lemma keeps_process_delivery [keeps_rules]:
  assumes "worker_statements D"
  shows "keeps (on_db D) (process_delivery L dm did)"
proof (rule keepsI)
  show "on_db D v" if "on_db D w" "process_delivery L dm did w = (r, v)" for w r v
    using that
  proof (induction L dm did w arbitrary: r v rule: process_delivery.induct)
    case (1 L dm did w)
    obtain r1 v1 where at: "delivery_attempt L dm did w = (r1, v1)" by (cases "delivery_attempt L dm did w")
    note one = keepsD [OF keeps_attempt [OF assms] 1(2) at]
    show ?case
    proof (cases "\<exists>n. r1 = Inr (Some n)")
      case False
      with 1(3) at have "v = v1"
        by (subst (asm) process_delivery.simps) (auto split: sum.splits option.splits)
      with one show ?thesis by simp
    next
      case True
      then obtain n where n: "r1 = Inr (Some n)" by blast
      obtain r2 v2 where wt: "wait_backoff n v1 = (r2, v2)" by (cases "wait_backoff n v1")
      have two: "on_db D v2"
        using wt one by (auto simp: wait_backoff_def split: option.splits if_splits)
      show ?thesis
      proof (cases r2)
        case (Inl e)
        with 1(3) at n wt have "v = v2" by (subst (asm) process_delivery.simps) simp
        with two show ?thesis by simp
      next
        case (Inr u)
        with 1(3) at n wt have run: "process_delivery L dm did v2 = (r, v)"
          by (subst (asm) process_delivery.simps) simp
        show ?thesis by (rule 1(1) [OF at [symmetric] n refl wt [symmetric] Inr two run])
      qed
    qed
  qed
qed

lemma keeps_br_pop [keeps_rules]: "keeps (on_db D) (br_pop_job L q t)"
  by (rule keeps_db_same) (rule br_pop_tables)

lemma keeps_sum [keeps_rules]:
  "(\<And>e. keeps I (g e)) \<Longrightarrow> (\<And>y. keeps I (f y)) \<Longrightarrow> keeps I (case x of Inl e \<Rightarrow> g e | Inr y \<Rightarrow> f y)"
  by (cases x) simp_all

lemma keeps_worker_turn:
  assumes "worker_statements D"
  shows "keeps (on_db D) (worker_turn L q n)"
  unfolding worker_turn_def serve_job_def logged_def sleep_def
  by (intro keeps_rules assms) simp_all

section \<open>A world in which nothing fails\<close>

text \<open>No call fails, and the ledger's sequence is ahead of its rows.\<close>

definition seq_ahead :: "nat \<Rightarrow> db \<Rightarrow> bool" where
  "seq_ahead n d \<longleftrightarrow> (\<forall>e \<in> set (ledger d). led_id e < n)"

definition calm :: "world \<Rightarrow> bool" where
  "calm w \<longleftrightarrow> quiet w \<and> seq_ahead (w_seq w) (w_db w) \<and> seq_ahead (w_seq w) (w_tx w)"

lemma calm_exec:
  assumes "\<And>g d x d'. f g d = Inr (x, d') \<Longrightarrow> seq_ahead (g_seq g) d \<Longrightarrow> seq_ahead (Suc (g_seq g)) d'"
  shows "keeps calm (exec q f)"
proof (rule keepsI)
  fix w r v assume c: "calm w" and run: "exec q f w = (r, v)"
  have up: "seq_ahead n d \<Longrightarrow> seq_ahead (Suc n) d" for n d by (auto simp: seq_ahead_def)
  from c have quiet: "quiet w" and s: "seq_ahead (w_seq w) (w_db w)" "seq_ahead (w_seq w) (w_tx w)"
    by (simp_all add: calm_def)
  show "calm v"
  proof (cases "f (gen_of w) (get_db q w)")
    case (Inl e)
    then show ?thesis using run quiet s up by (auto simp: exec_quiet calm_def)
  next
    case (Inr xd)
    obtain x d where "xd = (x, d)" by (cases xd)
    with Inr have f: "f (gen_of w) (get_db q w) = Inr (x, d)" by simp
    have "seq_ahead (Suc (w_seq w)) d"
      using assms [OF f] s by (cases q) simp_all
    then show ?thesis using run quiet s up f by (cases q) (auto simp: exec_quiet calm_def)
  qed
qed

lemma calm_query [keeps_rules]: "keeps calm (query q f)"
  unfolding query_def by (rule calm_exec) (auto simp: seq_ahead_def)

lemma calm_same_ledger:
  assumes "\<And>g d x d'. f g d = Inr (x, d') \<Longrightarrow> ledger d' = ledger d"
  shows "keeps calm (exec q f)"
  by (rule calm_exec) (auto simp: seq_ahead_def intro: less_SucI dest!: assms)

lemma calm_statements [keeps_rules]:
  "keeps calm (exec q (sql_settle_payment p))" "keeps calm (exec q (sql_settle_refund p))"
  "keeps calm (exec q (sql_mark_processed p))" "keeps calm (exec q (sql_insert_delivery n))"
  by (rule calm_same_ledger; auto simp: sql_settle_payment_def sql_settle_refund_def sql_mark_processed_def
      sql_insert_delivery_def Let_def split: if_splits)+

lemma calm_ledger [keeps_rules]: "keeps calm (exec q (sql_insert_ledger t p k e j))"
  by (rule calm_exec) (auto simp: sql_insert_ledger_def seq_ahead_def Let_def split: if_splits)

lemma calm_commit [keeps_rules]: "keeps calm commit_tx"
  by (rule keepsI) (auto simp: calm_def commit_quiet)

lemma calm_with_tx:
  assumes "keeps calm m" and "quiet w" and "seq_ahead (w_seq w) (w_db w)"
  shows "calm (snd (with_tx m w))"
proof -
  obtain r v where m: "m (w\<lparr>w_tx := w_db w\<rparr>) = (r, v)" by (cases "m (w\<lparr>w_tx := w_db w\<rparr>)")
  have "calm (w\<lparr>w_tx := w_db w\<rparr>)" using assms(2,3) by (simp add: calm_def)
  from keepsD [OF assms(1) this m] show ?thesis using assms(2) m by (simp add: with_tx_quiet calm_def)
qed

lemma keeps_calm_with_tx [keeps_rules]: "keeps calm m \<Longrightarrow> keeps calm (with_tx m)"
  unfolding keeps_def using calm_with_tx [of m] by (simp add: keeps_def calm_def)

lemma calm_publish [keeps_rules]: "keeps calm (publish_webhook_delivery L pub u)"
proof (rule keepsI)
  fix w r v assume "calm w" and "publish_webhook_delivery L pub u w = (r, v)"
  then show "calm v"
    by (cases pub; cases "case pub of Broker q \<Rightarrow> q | NoOpPublisher \<Rightarrow> AzureServiceBus")
      (auto simp: op_ok_def redis_publish_webhook_delivery_def redis_lpush_def calm_def
        bus_publish_webhook_delivery_def bus_send_def set_queue_def)
qed

lemma calm_settle_tx [keeps_rules]: "keeps calm (payment_settle_tx pid)" "keeps calm (refund_settle_tx L rid)"
  unfolding payment_settle_tx_def refund_settle_tx_def ledger_append_def Let_def by (intro keeps_rules)+

lemma calm_enqueue [keeps_rules]:
  "keeps calm (enqueue_payment_settled L pub pid)" "keeps calm (enqueue_refund_succeeded L pub rid)"
  unfolding enqueue_payment_settled_def enqueue_refund_succeeded_def enqueue_delivery_def
  by (intro keeps_rules)+

lemma calm_outbox:
  assumes "quiet w" and "seq_ahead (w_seq w) (w_db w)"
  shows "calm (snd (try_process_outbox L w))"
  unfolding try_process_outbox_def settle_outbox_row_def
  by (rule calm_with_tx [OF _ assms]) (intro keeps_rules)

section \<open>A row is served\<close>

lemma ledger_append_runs:
  assumes "quiet w" and "seq_ahead (w_seq w) (w_tx w)" and "t \<in> ten_id ` set (tenants (w_tx w))"
    and "p \<in> pay_id ` set (payments (w_tx w))"
  shows "\<exists>b v. ledger_append Tx t p k e pl w = (Inr b, v) \<and> quiet v"
proof -
  have "w_seq w \<notin> led_id ` set (ledger (w_tx w))" using assms(2) by (auto simp: seq_ahead_def)
  then show ?thesis
    using assms(1,3,4) by (auto simp: ledger_append_def op_then_def exec_quiet op_ok_def sql_insert_ledger_def Let_def)
qed

lemma payment_settle_tx_runs:
  assumes "quiet w" and "seq_ahead (w_seq w) (w_tx w)"
    and "\<And>p. p \<in> set (payments (w_tx w)) \<Longrightarrow> pay_tenant p \<in> ten_id ` set (tenants (w_tx w))"
  shows "\<exists>v. payment_settle_tx pid w = (Inr (), v) \<and> quiet v"
proof (cases "find (\<lambda>p. pay_id p = pid) (payments (w_tx w))")
  case None
  then show ?thesis using assms(1) by (simp add: payment_settle_tx_def op_then_def query_quiet op_ok_def)
next
  case (Some p)
  then have p: "p \<in> set (payments (w_tx w))" "pay_id p = pid" by (auto dest: find_Some_iff_in)
  have "\<exists>b v. ledger_append Tx (pay_tenant p) pid ledger_settlement_completed ledger_settlement_completed
      (Some [(''mock'', JBool True)]) (spend w) = (Inr b, v) \<and> quiet v"
    using assms p by (intro ledger_append_runs) (auto simp: seq_ahead_def intro: less_SucI)
  then obtain b v where "ledger_append Tx (pay_tenant p) pid ledger_settlement_completed ledger_settlement_completed
      (Some [(''mock'', JBool True)]) (spend w) = (Inr b, v)" "quiet v" by blast
  then show ?thesis
    using assms(1) Some by (simp add: payment_settle_tx_def op_then_def query_quiet op_ok_def exec_quiet sql_settle_payment_def)
qed

lemma refund_settle_tx_runs:
  assumes "quiet w" and "seq_ahead (w_seq w) (w_tx w)" and c: "consistent L (w_tx w)"
  shows "\<exists>v. refund_settle_tx L rid w = (Inr (), v) \<and> quiet v"
proof (cases "sql_refund_with_payment rid (w_tx w)")
  case None
  then show ?thesis using assms(1) by (simp add: refund_settle_tx_def op_then_def query_quiet op_ok_def)
next
  case (Some rp)
  obtain r p where rp: "rp = (r, p)" by (cases rp)
  note rows = refund_with_payment_rows [OF Some [unfolded rp]]
  have rok: "refund_ok L (w_tx w) r" using consistentD(4) [OF c] rows by blast
  then obtain p' where p': "p' \<in> set (payments (w_tx w))" "pay_id p' = ref_payment r" "pay_tenant p' = ref_tenant r"
      "pay_status p' = ''succeeded''" by (auto simp: refund_ok_def)
  have "p' = p" using distinct_map_unique [of pay_id "payments (w_tx w)" p' p] consistentD(1) [OF c] p' rows
    by (simp add: unique_keys_def)
  with p' have pay: "pay_status p = ''succeeded''" "pay_tenant p = ref_tenant r" by simp_all
  have "ref_tenant r \<in> ten_id ` set (tenants (w_tx w))"
    using consistentD(3) [OF c, of p] rows pay by (simp add: payment_ok_def)
  then have "\<exists>b v. ledger_append Tx (ref_tenant r) (ref_payment r) k e pl (spend w) = (Inr b, v) \<and> quiet v" for k e pl
    using assms rows by (intro ledger_append_runs) (auto simp: seq_ahead_def intro: less_SucI)
  then obtain b v where "ledger_append Tx (ref_tenant r) (ref_payment r) (refund_dedupe L rid '':succeeded'')
      ledger_refund_succeeded (Some [(''refund_id'', JStr (l_uuid_string L rid))]) (spend w) = (Inr b, v)" "quiet v" by blast
  then show ?thesis
    using assms(1) Some rp pay
    by (simp add: refund_settle_tx_def op_then_def query_quiet op_ok_def exec_quiet sql_settle_refund_def)
qed

lemma settle_outbox_row_runs:
  assumes "uuid_roundtrip L" and "quiet w" and "seq_ahead (w_seq w) (w_tx w)" and c: "consistent L (w_tx w)"
    and ob: "ob \<in> set (outbox (w_tx w))"
  shows "\<exists>fu v. settle_outbox_row L ob w = (Inr fu, v) \<and> quiet v"
proof -
  have tenants: "pay_tenant p \<in> ten_id ` set (tenants (w_tx w))" if "p \<in> set (payments (w_tx w))" for p
    using consistentD(3) [OF c that] by (simp add: payment_ok_def)
  from consistentD(6) [OF c] ob consider (payment) p :: payment where "names_payment L ob (pay_id p)" | (refund) r :: refund where "names_refund L ob (ref_id r)"
    unfolding outbox_ok_def by blast
  then show ?thesis
  proof cases
    case payment
    then have "out_kind ob = kind_payment_settlement" by (simp add: names_payment_def)
    then show ?thesis
      using payment_settle_tx_runs [OF assms(2,3) tenants, of "pay_id p"] names_payment_field [OF payment] assms(1)
      by (auto simp: settle_outbox_row_def op_then_def op_ok_def)
  next
    case refund
    then have "out_kind ob \<noteq> kind_payment_settlement" "out_kind ob = kind_refund_settlement"
      by (simp_all add: names_refund_def kind_refund_settlement_def kind_payment_settlement_def)
    then show ?thesis
      using refund_settle_tx_runs [OF assms(2,3) c, of "ref_id r"] names_refund_field [OF refund] assms(1)
      by (auto simp: settle_outbox_row_def op_then_def op_ok_def)
  qed
qed

lemma try_process_outbox_runs:
  assumes "uuid_roundtrip L" and "quiet w" and "seq_ahead (w_seq w) (w_db w)" and "consistent L (w_db w)"
    and next_row: "sql_next_outbox (w_db w) = Some ob"
  shows "\<exists>fu v. try_process_outbox L w = (Inr fu, v) \<and> outbox_step L fu (w_db w) (w_db v)"
proof -
  let ?w = "spend (w\<lparr>w_tx := w_db w\<rparr>)"
  have "\<exists>fu v. settle_outbox_row L ob ?w = (Inr fu, v) \<and> quiet v"
    using assms sql_next_outbox_Some [OF next_row]
    by (intro settle_outbox_row_runs) (auto simp: seq_ahead_def intro: less_SucI)
  then obtain fu v where "settle_outbox_row L ob ?w = (Inr fu, v)" "quiet v" by blast
  then have "\<exists>v. try_process_outbox L w = (Inr fu, v)"
    using assms(2) next_row
    by (simp add: try_process_outbox_def with_tx_quiet op_then_def query_quiet exec_quiet commit_quiet op_ok_def
        sql_mark_processed_def)
  then obtain v' where run: "try_process_outbox L w = (Inr fu, v')" by blast
  from wp_Inr [OF try_process_outbox_wp run] next_row run show ?thesis by auto
qed

section \<open>The outbox is emptied\<close>

definition unprocessed :: "db \<Rightarrow> nat" where
  "unprocessed d = count_where (\<lambda>x. out_processed x = None) (outbox d)"

lemma unprocessed_0: "unprocessed d = 0 \<longleftrightarrow> sql_next_outbox d = None"
  by (simp add: unprocessed_def count_where_0 sql_next_outbox_None)

lemma count_where_less:
  assumes "\<And>x. Q (f x) \<Longrightarrow> Q x" and "x \<in> set xs" and "P x" and "Q x" and "\<not> Q (f x)"
  shows "count_where Q (update_where P f xs) < count_where Q xs"
proof -
  have le: "count_where Q (update_where P f ys) \<le> count_where Q ys" for ys
  proof (induction ys)
    case (Cons y ys)
    then show ?case
      using assms(1) [of y] by (cases "P y"; cases "Q y"; cases "Q (f y)") (simp_all add: count_where_def update_where_def)
  qed (simp add: count_where_def update_where_def)
  from assms(2) show ?thesis
  proof (induction xs)
    case (Cons y ys)
    show ?case
    proof (cases "y = x")
      case True
      then show ?thesis using assms(3-5) le [of ys] by (simp add: count_where_def update_where_def)
    next
      case False
      with Cons have "count_where Q (update_where P f ys) < count_where Q ys" by simp
      then show ?thesis
        using assms(1) [of y] by (cases "P y"; cases "Q y"; cases "Q (f y)") (simp_all add: count_where_def update_where_def)
    qed
  qed simp
qed

lemma outbox_step_unprocessed:
  assumes "outbox_step L fu d d'"
  shows "unprocessed d' < unprocessed d"
proof -
  obtain ob d1 t where ob: "sql_next_outbox d = Some ob" and row: "row_settled L ob fu d d1"
    and d': "d' = mark_processed (out_id ob) t d1"
    using assms by (auto simp: outbox_step_def)
  have "outbox d1 = outbox d"
    using row by (auto simp: row_settled_def elim: settled_onceE refund_settled_onceE)
  then show ?thesis
    using sql_next_outbox_Some [OF ob] unfolding unprocessed_def d' mark_processed_def
    by (simp, intro count_where_less [where x = ob]) auto
qed

lemma outbox_step_followup: "outbox_step L fu d d' \<Longrightarrow> fu_payment fu \<noteq> None \<or> fu_refund fu \<noteq> None"
  by (auto simp: outbox_step_def row_settled_def)

lemma worker_turn_row:
  assumes "try_process_outbox L w = (Inr fu, v)" and "fu_payment fu \<noteq> None \<or> fu_refund fu \<noteq> None"
  shows "\<exists>m. snd (worker_turn L q n w) = snd (m v) \<and>
    ((\<exists>pid. m = logged (enqueue_payment_settled L (Broker q) pid)) \<or>
     (\<exists>rid. m = logged (enqueue_refund_succeeded L (Broker q) rid)))"
  using assms by (auto simp: worker_turn_def op_try_def split: option.splits)

lemma snd_logged: "snd (logged m w) = snd (m w)"
  by (simp add: logged_def op_try_def op_ok_def split: prod.splits)

lemma enqueue_keeps:
  assumes "(\<exists>pid. m = logged (enqueue_payment_settled L pub pid)) \<or> (\<exists>rid. m = logged (enqueue_refund_succeeded L pub rid))"
  shows "keeps calm m" and "unprocessed (w_db (snd (m w))) = unprocessed (w_db w)"
proof -
  have "keeps calm (logged (enqueue_payment_settled L pub pid))" "keeps calm (logged (enqueue_refund_succeeded L pub rid))" for pid rid
    unfolding logged_def by (intro keeps_rules)+
  then show "keeps calm m" using assms by blast
  have "wp (enqueue_payment_settled L pub pid) (\<lambda>_ v. outbox (w_db v) = outbox (w_db w)) (\<lambda>_ v. outbox (w_db v) = outbox (w_db w)) w"
    "wp (enqueue_refund_succeeded L pub pid) (\<lambda>_ v. outbox (w_db v) = outbox (w_db w)) (\<lambda>_ v. outbox (w_db v) = outbox (w_db w)) w" for pid
    unfolding enqueue_payment_settled_def enqueue_refund_succeeded_def
    by (intro wp_thenI wp_query_PoolI wp_optionI wp_prodI wp_okI; (simp; fail)?;
        rule wp_mono [OF enqueue_delivery_db]; auto simp: delivery_added_def)+
  then have "outbox (w_db (snd (logged (enqueue_payment_settled L pub pid) w))) = outbox (w_db w)"
    "outbox (w_db (snd (logged (enqueue_refund_succeeded L pub pid) w))) = outbox (w_db w)" for pid
    by (simp_all add: snd_logged wp_state)
  then show "unprocessed (w_db (snd (m w))) = unprocessed (w_db w)" using assms by (auto simp: unprocessed_def)
qed

lemma turn_consistent:
  assumes "uuid_roundtrip L" and "consistent L (w_db w)"
  shows "consistent L (w_db (snd (worker_turn L q n w)))"
proof -
  have "ledger_refs (w_db w)" using consistentD(2) [OF assms(2)] by (force simp: ledger_refs_def event_ok_def led_key_def)
  then have "rows_ok (w_db w)" using consistentD(1) [OF assms(2)] by (simp add: rows_ok_def unique_keys_def)
  from moves_run [OF moves_worker_turn this] have "db_run L (w_db w) (w_db (snd (worker_turn L q n w)))" .
  then show ?thesis using assms(2) by (induction rule: rtranclp_induct) (auto intro: consistent_step [OF _ assms(1)])
qed

lemma turn_serves:
  assumes "uuid_roundtrip L" and "quiet w" and "seq_ahead (w_seq w) (w_db w)" and "consistent L (w_db w)"
    and "unprocessed (w_db w) \<noteq> 0"
  shows "calm (snd (worker_turn L q n w)) \<and> unprocessed (w_db (snd (worker_turn L q n w))) < unprocessed (w_db w)"
proof -
  obtain ob where "sql_next_outbox (w_db w) = Some ob" using assms(5) by (auto simp: unprocessed_0)
  from try_process_outbox_runs [OF assms(1-4) this]
  obtain fu v where run: "try_process_outbox L w = (Inr fu, v)" and step: "outbox_step L fu (w_db w) (w_db v)" by blast
  obtain m where m: "snd (worker_turn L q n w) = snd (m v)" and kind: "(\<exists>pid. m = logged (enqueue_payment_settled L (Broker q) pid)) \<or>
     (\<exists>rid. m = logged (enqueue_refund_succeeded L (Broker q) rid))"
    using worker_turn_row [OF run outbox_step_followup [OF step], of q n] by blast
  have "calm v" using calm_outbox [OF assms(2,3), of L] run by simp
  with enqueue_keeps(1) [OF kind] have "calm (snd (m v))" by (simp add: keeps_def)
  then show ?thesis unfolding m using enqueue_keeps(2) [OF kind, of v] outbox_step_unprocessed [OF step] by simp
qed

section \<open>Once empty it stays empty\<close>

lemma drained_statements: "worker_statements (\<lambda>d. unprocessed d = 0)"
  unfolding worker_statements_def unprocessed_def count_where_0
  by (auto intro!: stmt_keepsI simp: sql_insert_ledger_def sql_settle_payment_def sql_settle_refund_def
      sql_mark_processed_def sql_insert_delivery_def update_pending_def in_update_where Let_def split: if_splits)

lemma ids_statements:
  "worker_statements (\<lambda>d. map pay_id (payments d) = ps \<and> map ref_id (refunds d) = rs)"
  unfolding worker_statements_def
  by (auto intro!: stmt_keepsI simp: sql_insert_ledger_def sql_settle_payment_def sql_settle_refund_def
      sql_mark_processed_def sql_insert_delivery_def update_pending_def map_update_where Let_def split: if_splits)

text \<open>A turn starts with a transaction of its own, so what the open one holds does not matter.\<close>

lemma worker_turn_tx: "w_db (snd (worker_turn L q n w)) = w_db (snd (worker_turn L q n (w\<lparr>w_tx := w_db w\<rparr>)))"
proof (cases "cur_fault w = NoFault")
  case True
  have "begin_tx (w\<lparr>w_tx := w_db w\<rparr>) = begin_tx w"
    using True by (simp add: begin_tx_def cur_fault_def tick_def)
  then have "try_process_outbox L (w\<lparr>w_tx := w_db w\<rparr>) = try_process_outbox L w"
    by (simp add: try_process_outbox_def with_tx_def op_then_def)
  then show ?thesis by (simp add: worker_turn_def op_try_def)
next
  case False
  then have "try_process_outbox L x = (Inl ErrDB, tick x)" if "w_faults x = w_faults w" for x
    using that by (simp add: try_process_outbox_def with_tx_def op_then_def begin_tx_def cur_fault_def)
  then show ?thesis by (simp add: worker_turn_def op_try_def sleep_def op_mod_def)
qed

lemma turn_keeps:
  assumes "worker_statements D" and "D (w_db w)"
  shows "D (w_db (snd (worker_turn L q n w)))"
proof -
  have "on_db D (w\<lparr>w_tx := w_db w\<rparr>)" using assms(2) by (simp add: on_db_def)
  then have "on_db D (snd (worker_turn L q n (w\<lparr>w_tx := w_db w\<rparr>)))"
    using keeps_worker_turn [OF assms(1)] by (simp add: keeps_def)
  then show ?thesis using worker_turn_tx [of L q n w] by (simp add: on_db_def)
qed

text \<open>Every turn ends well: its errors are logged.\<close>

lemma worker_turn_ok: "\<exists>v. worker_turn L q n w = (Inr (), v)"
proof -
  have l: "\<exists>v. logged m w = (Inr (), v)" for m :: "'a action" and w
    by (simp add: logged_def op_try_def op_ok_def split: prod.splits)
  have s: "\<exists>v. sleep t w = (Inr (), v)" for t w by (simp add: sleep_def op_mod_def)
  have j: "\<exists>v. serve_job L q n job w = (Inr (), v)" for job w
    using l by (auto simp: serve_job_def op_ok_def split: prod.splits)
  show ?thesis
    unfolding worker_turn_def op_try_def
    using l s j by (auto split: prod.splits sum.splits option.splits)
qed

lemma worker_turns_Suc:
  "snd (worker_turns L q n (Suc k) w) = snd (worker_turns L q n k (snd (worker_turn L q n w)))"
  using worker_turn_ok [of L q n w] by (auto simp: op_then_def)

lemma turns_drain:
  assumes "uuid_roundtrip L" and "consistent L (w_db w)"
    and "quiet w \<and> seq_ahead (w_seq w) (w_db w) \<and> unprocessed (w_db w) \<le> k \<or> unprocessed (w_db w) = 0"
  shows "consistent L (w_db (snd (worker_turns L q n k w))) \<and> unprocessed (w_db (snd (worker_turns L q n k w))) = 0 \<and>
    map pay_id (payments (w_db (snd (worker_turns L q n k w)))) = map pay_id (payments (w_db w)) \<and>
    map ref_id (refunds (w_db (snd (worker_turns L q n k w)))) = map ref_id (refunds (w_db w))"
  using assms(2,3)
proof (induction k arbitrary: w)
  case 0
  then show ?case by (auto simp: op_ok_def)
next
  case (Suc k)
  let ?v = "snd (worker_turn L q n w)"
  note c = turn_consistent [OF assms(1) Suc.prems(1), of q n]
  note ids = turn_keeps [OF ids_statements [of "map pay_id (payments (w_db w))" "map ref_id (refunds (w_db w))"], of w L q n]
  have "quiet ?v \<and> seq_ahead (w_seq ?v) (w_db ?v) \<and> unprocessed (w_db ?v) \<le> k \<or> unprocessed (w_db ?v) = 0"
  proof (cases "unprocessed (w_db w) = 0")
    case True
    then show ?thesis using turn_keeps [OF drained_statements True] by simp
  next
    case False
    with Suc.prems turn_serves [OF assms(1) _ _ Suc.prems(1) False, of q n] show ?thesis by (auto simp: calm_def)
  qed
  from Suc.IH [OF c this] ids show ?case unfolding worker_turns_Suc by simp
qed

lemma drained_settled:
  assumes "consistent L d" and "unprocessed d = 0"
  shows "\<forall>p \<in> set (payments d). pay_status p = ''succeeded''" and "\<forall>r \<in> set (refunds d). ref_status r = ''succeeded''"
proof -
  have none: "out_processed ob \<noteq> None" if "ob \<in> set (outbox d)" for ob
    using assms(2) that by (simp add: unprocessed_def count_where_0)
  show "\<forall>p \<in> set (payments d). pay_status p = ''succeeded''"
    using none consistentD(3,6) [OF assms(1)] by (fastforce simp: outbox_ok_def payment_ok_def)
  show "\<forall>r \<in> set (refunds d). ref_status r = ''succeeded''"
    using none consistentD(4,6) [OF assms(1)] by (fastforce simp: outbox_ok_def refund_ok_def)
qed

text \<open>Tables with one accepted payment, a world's sequence ahead of its ledger.\<close>

definition sample_pending_db :: db where
  "sample_pending_db = ref_db\<lparr>payments := [sample_payment 7 ''pending''],
     ledger := [\<lparr>led_id = 0, led_tenant = 1, led_payment = 7, led_dedupe = ledger_payment_accepted,
       led_event = ledger_payment_accepted, led_payload = JObj [], led_created = 0\<rparr>],
     outbox := [\<lparr>out_id = 21, out_kind = kind_payment_settlement,
       out_payload = JObj [(''payment_id'', JStr (l_uuid_string ref_lib 7))], out_created = 0, out_processed = None\<rparr>]\<rparr>"

lemma sample_pending_consistent: "consistent ref_lib sample_pending_db"
  by (simp add: consistent_def unique_keys_def event_ok_def payment_ok_def outbox_ok_def names_payment_def
      sample_pending_db_def ref_db_def empty_db_def sample_tenant_def sample_payment_def led_key_def dedupe_distinct)

text \<open>
  C6: in consistent tables, which those of the running platform are, and when no call fails, as many
  turns of the worker's loop as the outbox has unprocessed rows settle every payment and every
  refund that was pending, whatever else waits in the queues and whatever the merchants answer.
\<close>

theorem worker_settles_all:
  assumes "uuid_roundtrip L" and "consistent L (w_db w)" and "quiet w" and "seq_ahead (w_seq w) (w_db w)"
    and "unprocessed (w_db w) \<le> k" and "d' = w_db (snd (worker_turns L q n k w))"
  shows "unprocessed d' = 0 \<and> map pay_id (payments d') = map pay_id (payments (w_db w)) \<and>
    map ref_id (refunds d') = map ref_id (refunds (w_db w)) \<and>
    (\<forall>p \<in> set (payments d'). pay_status p = ''succeeded'') \<and> (\<forall>r \<in> set (refunds d'). ref_status r = ''succeeded'')"
  using turns_drain [OF assms(1,2), of k q n] assms(3-6) drained_settled [of L d'] by simp

theorem worker_settles_all_witness:
  "map pay_status (payments (w_db (snd (worker_turns ref_lib AzureServiceBus 5 1 (ref_world sample_pending_db []))))) =
   [''succeeded'']"
proof -
  let ?w = "ref_world sample_pending_db []" and ?d = "w_db (snd (worker_turns ref_lib AzureServiceBus 5 1 (ref_world sample_pending_db [])))"
  have "seq_ahead (w_seq ?w) (w_db ?w)" by (simp add: seq_ahead_def ref_world_def sample_pending_db_def)
  moreover have "unprocessed (w_db ?w) \<le> 1" by (simp add: unprocessed_def count_where_def sample_pending_db_def)
  ultimately have "map pay_id (payments ?d) = map pay_id (payments (w_db ?w)) \<and> (\<forall>p \<in> set (payments ?d). pay_status p = ''succeeded'')"
    using worker_settles_all [OF ref_lib_roundtrip, of ?w 1 ?d AzureServiceBus 5] sample_pending_consistent by simp
  moreover have "map pay_id (payments (w_db ?w)) = [7]" by (simp add: sample_pending_db_def sample_payment_def)
  ultimately show ?thesis by (cases "payments ?d") auto
qed

end
