(* ===== verification/Answers.thy ===== *)
theory Answers
  imports Isolation
begin

text \<open>
  What the HTTP API tells: the client by the status of a payment submission, the operator by the
  lines of the log, a dashboard user by the token of a login.
\<close>

section \<open>The status of a payment submission\<close>

lemma payment_create_errors:
  assumes "ledger_refs (w_db w)"
  shows "wp (payment_create L t k amt c)
    (\<lambda>(p, b) v. if b then (\<exists>row. accepted L t k amt c row (w_db w) (w_db v)) else w_db v = w_db w)
    (\<lambda>e v. w_db v = w_db w \<or> e = ErrDB \<and> (\<exists>row. accepted L t k amt c row (w_db w) (w_db v))) w"
  unfolding payment_create_def count_payment_def validate_create_def Let_def
  using assms
  by (intro wp_rules; (simp; fail)?)
    (auto dest: sql_insert_payment_None acceptedI simp: created_payment_def)

definition answer_true :: "lib \<Rightarrow> uuid \<Rightarrow> int \<Rightarrow> db \<Rightarrow> db \<Rightarrow> bool" where
  "answer_true L t status d d' \<longleftrightarrow>
     (status = 201 \<and> (\<exists>k amt c row. accepted L t k amt c row d d')) \<or>
     (status \<in> {200, 400, 409} \<and> d' = d) \<or>
     (status = 500 \<and> (d' = d \<or> (\<exists>k amt c row. accepted L t k amt c row d d')))"

text \<open>
  C36: the status of the answer to a payment submission is the truth: 201 means that exactly one
  payment has been accepted, 200, 400 and 409 that nothing has changed; only after 500 either may
  have happened. No other status is given to an authenticated client, whatever fails.
\<close>

theorem post_payment_answers:
  assumes "ledger_refs (w_db w)" and "cx_tenant c = Some t"
  shows "wp (post_payment L c r) (\<lambda>x v. answer_true L t (rs_status x) (w_db w) (w_db v)) (\<lambda>_ _. False) w"
proof -
  have ok: "wp (op_ok (http_error s n)) (\<lambda>x v. answer_true L t (rs_status x) (w_db w) (w_db v)) (\<lambda>_ _. False) w"
    if "n \<in> {400, 409}" for s n
    using that by (intro wp_okI) (auto simp: answer_true_def http_error_def)
  show ?thesis
    unfolding post_payment_def require_tenant_id_def assms(2) option.case Let_def
    apply (intro wp_ifI wp_optionI wp_prodI ok; (simp; fail)?)
    apply (intro wp_optionI wp_tryI wp_mono [OF payment_create_errors [OF assms(1)]] ok; (simp; fail)?)
     apply (auto intro!: wp_okI simp: answer_true_def http_json_def split: if_splits)[1]
    apply (auto intro!: wp_okI simp: answer_true_def http_error_def split: err.splits)
    done
qed

definition sample_ctx :: ctx where
  "sample_ctx = with_tenant_principal background 1 PrincipalAPIKey 11"

theorem post_payment_answers_witness:
  "wp (post_payment ref_lib sample_ctx sample_request)
     (\<lambda>x v. answer_true ref_lib 1 (rs_status x) ref_api_db (w_db v)) (\<lambda>_ _. False)
     (ref_world ref_api_db [NoFault, NoFault, NoFault, NoFault, NoFault, LostAck])"
proof -
  have "ledger_refs ref_api_db" by (simp add: ledger_refs_def ref_api_db_def)
  moreover have "cx_tenant sample_ctx = Some 1" by (simp add: sample_ctx_def with_tenant_principal_def)
  ultimately show ?thesis
    using post_payment_answers [of "ref_world ref_api_db [NoFault, NoFault, NoFault, NoFault, NoFault, LostAck]" sample_ctx 1] by simp
qed

section \<open>The log\<close>

lemma log_attrs_background:
  "fst ` set (log_attrs L (with_request_id background rid) r n ms) \<subseteq>
   {''method'', ''path'', ''status'', ''duration_ms'', ''request_id''}"
  by (auto simp: log_attrs_def with_request_id_def background_def)


section \<open>Logging in\<close>

text \<open>
  What the code relies on of \<open>golang-jwt\<close> with one secret: a token it signs has no white space,
  and is parsed back to its claims until it expires.
\<close>

definition jwt_law :: "lib \<Rightarrow> string \<Rightarrow> bool" where
  "jwt_law L secret \<longleftrightarrow> (\<forall>cl tok. l_jwt_sign L secret cl = Some tok \<longrightarrow> plain tok \<and>
     (\<forall>now. l_jwt_parse L now secret tok =
        (if now < clm_exp cl then Some (Some (clm_tid cl), Some (clm_sub cl)) else None)))"

lemma parse_signed:
  assumes "jwt_law L secret" and "uuid_roundtrip L" and "sign_dashboard_token L secret tid uid ttl w = (Inr tok, v)"
  shows "parse_dashboard_bearer L now secret (''Bearer '' @ tok) =
    (if now div 1000000 < (w_now w + ttl) div 1000000 then Some (tid, uid) else None)"
proof -
  let ?cl = "\<lparr>clm_tid = l_uuid_string L tid, clm_sub = l_uuid_string L uid, clm_iat = w_now w div 1000000,
      clm_exp = (w_now w + ttl) div 1000000\<rparr>"
  have s: "l_jwt_sign L secret ?cl = Some tok"
    using assms(3) by (auto simp: sign_dashboard_token_def op_then_def op_get_def op_ok_def op_err_def split: option.splits)
  have "trim_space (trim_prefix (''Bearer '' @ tok) ''Bearer '') = tok"
    using s assms(1) by (simp add: trim_prefix_def jwt_law_def trim_space_plain)
  moreover have "has_prefix (''Bearer '' @ tok) ''Bearer ''" by (simp add: has_prefix_def)
  moreover have "l_jwt_parse L n secret tok = (if n < clm_exp ?cl then Some (Some (clm_tid ?cl), Some (clm_sub ?cl)) else None)" for n
    using s assms(1) unfolding jwt_law_def by blast
  ultimately show ?thesis using assms(2) by (simp add: parse_dashboard_bearer_def Let_def)
qed

definition login_answer :: "string \<Rightarrow> response" where
  "login_answer tok = http_json 200 (JObj [(''access_token'', JStr tok), (''expires_in'', JNum 86400),
     (''token_type'', JStr ''Bearer'')])"

lemma wp_audit_ignored:
  assumes "\<And>v. env_of v = env_of w \<Longrightarrow> Q () v"
  shows "wp (audit_ignored u e m) Q E w"
  unfolding audit_ignored_def audit_write_def Let_def using assms by (intro wp_rules) auto

text \<open>The token of an answer speaks for a user of the tables, from \<open>t0\<close> on for 24 hours.\<close>

definition granted :: "lib \<Rightarrow> string \<Rightarrow> time \<Rightarrow> db \<Rightarrow> response \<Rightarrow> bool" where
  "granted L secret t0 d x \<longleftrightarrow>
     (\<exists>tok. \<exists>u \<in> set (users d). x = login_answer tok \<and>
        (\<forall>now. parse_dashboard_bearer L now secret (''Bearer '' @ tok) =
           (if now div 1000000 < (t0 + 24 * 3600 * 1000000) div 1000000
            then Some (usr_tenant u, usr_id u) else None)))"


text \<open>A token library that signs one set of claims, a user, and the login of that user.\<close>

definition sample_claims :: jwt_claims where
  "sample_claims = \<lparr>clm_tid = ref_uuid_string 1, clm_sub = ref_uuid_string 5, clm_iat = 0, clm_exp = 86400\<rparr>"

definition ref_jwt_lib :: lib where
  "ref_jwt_lib = ref_lib\<lparr>l_jwt_sign := (\<lambda>s cl. if s = ''jwt'' \<and> cl = sample_claims then Some ''tok'' else None),
     l_jwt_parse := (\<lambda>now s raw. if s = ''jwt'' \<and> raw = ''tok'' \<and> now < clm_exp sample_claims
       then Some (Some (clm_tid sample_claims), Some (clm_sub sample_claims)) else None)\<rparr>"

definition ref_user_db :: db where
  "ref_user_db = ref_db\<lparr>users := [\<lparr>usr_id = 5, usr_tenant = 1, usr_email = ''a@b.c'',
     usr_password_hash = ''longpassword'', usr_created = 0\<rparr>]\<rparr>"

definition sample_login_body :: json where
  "sample_login_body = JObj [(''tenant_id'', JStr (ref_uuid_string 1)), (''email'', JStr ''A@b.c''),
     (''password'', JStr ''longpassword'')]"

definition sample_login :: request where
  "sample_login = \<lparr>rq_method = ''POST'', rq_path = [''v1'', ''auth'', ''login''], rq_api_key = [],
     rq_authorization = [], rq_idempotency_key = [], rq_origin = [], rq_status = [],
     rq_body = Json sample_login_body\<rparr>"

lemma ref_jwt_law: "jwt_law ref_jwt_lib ''jwt''" "uuid_roundtrip ref_jwt_lib"
  by (auto simp: jwt_law_def ref_jwt_lib_def plain_def byte_def uuid_roundtrip_def ref_lib_def ref_uuid_roundtrip)

lemma sample_login_fields:
  "uuid_field ref_jwt_lib ''tenant_id'' sample_login_body = Some 1"
  "string_field ''email'' sample_login_body = Some ''A@b.c''"
  "string_field ''password'' sample_login_body = Some ''longpassword''"
proof -
  have k: "fold_key ''tenant_id'' = ''tenant_id''" "fold_key ''email'' = ''email''" "fold_key ''password'' = ''password''"
    by code_simp+
  have p: "l_uuid_parse ref_jwt_lib (ref_uuid_string 1) = Some 1"
    by (simp add: ref_jwt_lib_def ref_lib_def ref_uuid_roundtrip)
  show "uuid_field ref_jwt_lib ''tenant_id'' sample_login_body = Some 1"
    "string_field ''email'' sample_login_body = Some ''A@b.c''"
    "string_field ''password'' sample_login_body = Some ''longpassword''"
    by (simp_all only: uuid_field_def string_field_def sample_login_body_def decode_field_def) (simp_all add: k p)
qed

lemma sample_login_runs:
  "fst (post_auth_login ref_jwt_lib ''jwt'' background sample_login (ref_world ref_user_db [])) = Inr (login_answer ''tok'')"
proof -
  have e: "trim_space (to_lower (l_lower ref_jwt_lib) ''A@b.c'') = ''a@b.c''"
    unfolding ref_jwt_lib_def ref_lib_def by code_simp
  have b: "Option.bind (decode_body (rq_body sample_login)) (decode_login_body ref_jwt_lib) =
      Some \<lparr>lgb_tenant_id = 1, lgb_email = ''A@b.c'', lgb_password = ''longpassword''\<rparr>"
    by (simp add: sample_login_def decode_login_body_def sample_login_fields)
  have cl: "sample_claims = \<lparr>clm_tid = l_uuid_string ref_jwt_lib 1, clm_sub = l_uuid_string ref_jwt_lib 5, clm_iat = 0, clm_exp = 86400\<rparr>"
    by (simp add: sample_claims_def ref_jwt_lib_def ref_lib_def)
  have s: "l_jwt_sign ref_jwt_lib ''jwt'' sample_claims = Some ''tok''" by (simp add: ref_jwt_lib_def)
  have m: "l_bcrypt_match ref_jwt_lib ''longpassword'' ''longpassword''" by (simp add: ref_jwt_lib_def ref_lib_def)
  show ?thesis
    unfolding post_auth_login_def b option.case Let_def login_body.select_convs e
    using s m unfolding cl
    by (simp add: world_eval ref_eval ref_user_db_def sign_dashboard_token_def audit_ignored_def audit_write_def
        sql_insert_audit_def login_answer_def)
qed


end
