(* ===== verification/Schema.thy ===== *)
theory Schema
  imports Consistency
begin

text \<open>
  The types of the rows: what the columns' types, checks and foreign keys of \<open>migrate/sql\<close> ask of
  every table, and more than the schema says where the code alone sees to it (who a ledger event is booked
  for, what a delivery reports). Every step keeps them, so every reachable state has them.
\<close>

section \<open>Typed rows\<close>

text \<open>
  Whose the payments and the refunds are: what the rows of the other tables refer to.
\<close>

definition owners :: "db \<Rightarrow> (uuid \<times> uuid) set" where
  "owners d = (\<lambda>p. (pay_id p, pay_tenant p)) ` set (payments d)"

definition refund_owners :: "db \<Rightarrow> (uuid \<times> uuid \<times> uuid) set" where
  "refund_owners d = (\<lambda>r. (ref_id r, ref_payment r, ref_tenant r)) ` set (refunds d)"

definition is_currency :: "lib \<Rightarrow> string \<Rightarrow> bool" where
  "is_currency L c \<longleftrightarrow> Some c \<in> range (pg_char3 L)"

definition payment_typed :: "lib \<Rightarrow> db \<Rightarrow> payment \<Rightarrow> bool" where
  "payment_typed L d p \<longleftrightarrow> pay_tenant p \<in> ten_id ` set (tenants d) \<and> 0 < sint (pay_amount p) \<and>
     is_currency L (pay_currency p) \<and> pay_status p \<in> {''pending'', ''succeeded''} \<and> pay_scope p = scope_payment_create"

definition refund_typed :: "lib \<Rightarrow> db \<Rightarrow> refund \<Rightarrow> bool" where
  "refund_typed L d r \<longleftrightarrow> (ref_payment r, ref_tenant r) \<in> owners d \<and> 0 < sint (ref_amount r) \<and>
     is_currency L (ref_currency r) \<and> ref_status r \<in> {''pending'', ''succeeded''} \<and> ref_scope r = scope_refund_create"

text \<open>A ledger event is booked for the tenant of its payment, under one of the four types.\<close>

definition event_typed :: "db \<Rightarrow> ledger_event \<Rightarrow> bool" where
  "event_typed d e \<longleftrightarrow> (led_payment e, led_tenant e) \<in> owners d \<and>
     led_event e \<in> {ledger_payment_accepted, ledger_settlement_completed, ledger_refund_requested, ledger_refund_succeeded}"

text \<open>A delivery goes to the tenant of what it reports and says which of the two it is.\<close>

definition delivery_typed :: "db \<Rightarrow> delivery \<Rightarrow> bool" where
  "delivery_typed d x \<longleftrightarrow> (\<exists>pid. del_payment x = Some pid \<and> (pid, del_tenant x) \<in> owners d \<and>
     (case del_refund x of
        None \<Rightarrow> del_event x = event_payment_settled
      | Some rid \<Rightarrow> del_event x = event_refund_succeeded \<and> (rid, pid, del_tenant x) \<in> refund_owners d))"

definition schema_ok :: "lib \<Rightarrow> db \<Rightarrow> bool" where
  "schema_ok L d \<longleftrightarrow>
     (\<forall>k \<in> set (api_keys d). key_tenant k \<in> ten_id ` set (tenants d)) \<and>
     (\<forall>u \<in> set (users d). usr_tenant u \<in> ten_id ` set (tenants d)) \<and>
     (\<forall>p \<in> set (payments d). payment_typed L d p) \<and> (\<forall>r \<in> set (refunds d). refund_typed L d r) \<and>
     (\<forall>e \<in> set (ledger d). event_typed d e) \<and> (\<forall>x \<in> set (deliveries d). delivery_typed d x) \<and>
     (\<forall>ob \<in> set (outbox d). out_kind ob \<in> {kind_payment_settlement, kind_refund_settlement})"

lemma schema_ok_empty [simp]: "schema_ok L empty_db"
  by (simp add: schema_ok_def empty_db_def)

section \<open>Tables that grow and rows that change\<close>

text \<open>\<open>wider d d'\<close>: whatever \<open>d\<close> has to refer to, \<open>d'\<close> has too.\<close>

definition wider :: "db \<Rightarrow> db \<Rightarrow> bool" where
  "wider d d' \<longleftrightarrow> ten_id ` set (tenants d) \<subseteq> ten_id ` set (tenants d') \<and> owners d \<subseteq> owners d' \<and>
     refund_owners d \<subseteq> refund_owners d'"

lemma typed_wider:
  assumes "wider d d'"
  shows "payment_typed L d p \<Longrightarrow> payment_typed L d' p" "refund_typed L d r \<Longrightarrow> refund_typed L d' r"
    "event_typed d e \<Longrightarrow> event_typed d' e" "delivery_typed d x \<Longrightarrow> delivery_typed d' x"
  using assms
  by (auto simp: wider_def payment_typed_def refund_typed_def event_typed_def)
    (cases "del_refund x"; auto simp: delivery_typed_def)

text \<open>Every row of the tables afterwards is an old one, or typed on its own.\<close>

lemma schema_ok_more:
  assumes "schema_ok L d" and w: "wider d d'"
    and "\<And>k. k \<in> set (api_keys d') \<Longrightarrow> (\<exists>k' \<in> set (api_keys d). key_tenant k = key_tenant k') \<or> key_tenant k \<in> ten_id ` set (tenants d')"
    and "\<And>u. u \<in> set (users d') \<Longrightarrow> u \<in> set (users d) \<or> usr_tenant u \<in> ten_id ` set (tenants d')"
    and "\<And>p. p \<in> set (payments d') \<Longrightarrow> p \<in> set (payments d) \<or> payment_typed L d' p"
    and "\<And>r. r \<in> set (refunds d') \<Longrightarrow> r \<in> set (refunds d) \<or> refund_typed L d' r"
    and "\<And>e. e \<in> set (ledger d') \<Longrightarrow> e \<in> set (ledger d) \<or> event_typed d' e"
    and "\<And>x. x \<in> set (deliveries d') \<Longrightarrow> x \<in> set (deliveries d) \<or> delivery_typed d' x"
    and "\<And>ob. ob \<in> set (outbox d') \<Longrightarrow> (\<exists>ob' \<in> set (outbox d). out_kind ob = out_kind ob') \<or>
      out_kind ob \<in> {kind_payment_settlement, kind_refund_settlement}"
  shows "schema_ok L d'"
proof -
  note old = assms(1) [unfolded schema_ok_def]
  have t: "ten_id ` set (tenants d) \<subseteq> ten_id ` set (tenants d')" using w by (simp add: wider_def)
  show ?thesis
    unfolding schema_ok_def
  proof (intro conjI ballI, goal_cases)
    case (1 k) then show ?case using assms(3) [of k] old t by auto
  next
    case (2 u) then show ?case using assms(4) [of u] old t by blast
  next
    case (3 p) then show ?case using assms(5) [of p] old typed_wider(1) [OF w] by blast
  next
    case (4 r) then show ?case using assms(6) [of r] old typed_wider(2) [OF w] by blast
  next
    case (5 e) then show ?case using assms(7) [of e] old typed_wider(3) [OF w] by blast
  next
    case (6 x) then show ?case using assms(8) [of x] old typed_wider(4) [OF w] by blast
  next
    case (7 ob) then show ?case using assms(9) [of ob] old by force
  qed
qed

section \<open>The steps\<close>

lemma owners_found: "p \<in> set (payments d) \<Longrightarrow> (pay_id p, pay_tenant p) \<in> owners d"
  by (auto simp: owners_def)

lemma owners_update: "(\<And>p. pay_id (f p) = pay_id p \<and> pay_tenant (f p) = pay_tenant p) \<Longrightarrow>
  (\<lambda>p. (pay_id p, pay_tenant p)) ` set (update_where P f ps) = (\<lambda>p. (pay_id p, pay_tenant p)) ` set ps"
  by (rule ids_update_where) simp

lemma refund_owners_update: "(\<And>r. ref_id (f r) = ref_id r \<and> ref_payment (f r) = ref_payment r \<and> ref_tenant (f r) = ref_tenant r) \<Longrightarrow>
  (\<lambda>r. (ref_id r, ref_payment r, ref_tenant r)) ` set (update_where P f rs) = (\<lambda>r. (ref_id r, ref_payment r, ref_tenant r)) ` set rs"
  by (rule ids_update_where) simp

lemma event_added_typed:
  assumes "event_added t (pid, k) e old evs" and "(pid, t) \<in> owners d"
    and "e \<in> {ledger_payment_accepted, ledger_settlement_completed, ledger_refund_requested, ledger_refund_succeeded}"
  shows "\<forall>ev \<in> set evs. event_typed d ev"
  using assms by (cases "(pid, k) \<in> led_key ` set old") (auto simp: event_added_def event_typed_def led_key_def)

lemma schema_accepted:
  assumes "accepted L t k amt c row d d'" and "schema_ok L d"
  shows "schema_ok L d'"
proof -
  obtain ev au ob where d': "d' = d\<lparr>audits := audits d @ [au], payments := payments d @ [row],
      ledger := ledger d @ [ev], outbox := outbox d @ [ob]\<rparr>"
    and row: "pay_idem row = (t, scope_payment_create, k)" "pay_amount row = amt" "0 < sint amt"
      "Some (pay_currency row) = pg_char3 L (to_upper (l_upper L) (trim_space c))" "pay_status row = ''pending''"
      "t \<in> ten_id ` set (tenants d)"
    and ev: "led_tenant ev = t" "led_key ev = (pay_id row, ledger_payment_accepted)" "led_event ev = ledger_payment_accepted"
    and ob: "out_kind ob = kind_payment_settlement"
    using assms(1) unfolding accepted_def Let_def by blast
  have w: "wider d d'" by (auto simp: d' wider_def owners_def refund_owners_def)
  have "payment_typed L d' row"
    using row by (auto simp: payment_typed_def is_currency_def pay_idem_def d')
  moreover have "event_typed d' ev" using ev row by (auto simp: event_typed_def led_key_def pay_idem_def owners_def d')
  ultimately show ?thesis
    using ob by (intro schema_ok_more [OF assms(2) w]) (auto simp: d')
qed

lemma schema_settled:
  assumes "settled_once pid d d'" and "schema_ok L d"
  shows "schema_ok L d'"
proof (rule settled_onceE [OF assms(1)])
  fix p now evs
  assume p: "p \<in> set (payments d)" "pay_id p = pid"
    and evs: "event_added (pay_tenant p) (pid, ledger_settlement_completed) ledger_settlement_completed (ledger d) evs"
    and d': "d' = d\<lparr>ledger := ledger d @ evs,
       payments := update_where (\<lambda>p. pay_id p = pid \<and> pay_status p = ''pending'')
         (\<lambda>p. p\<lparr>pay_status := ''succeeded'', pay_updated := now\<rparr>) (payments d)\<rparr>"
  have o: "owners d' = owners d" unfolding owners_def d' by (simp add: owners_update)
  have w: "wider d d'" unfolding wider_def o by (simp add: d' refund_owners_def)
  have "\<forall>ev \<in> set evs. event_typed d' ev"
    using owners_found [OF p(1)] p(2) o by (intro event_added_typed [OF evs]) auto
  moreover have "payment_typed L d' q" if "q \<in> set (payments d')" for q
  proof -
    obtain q' where "q' \<in> set (payments d)"
        "q = (if pay_id q' = pid \<and> pay_status q' = ''pending'' then q'\<lparr>pay_status := ''succeeded'', pay_updated := now\<rparr> else q')"
      using \<open>q \<in> set (payments d')\<close> by (auto simp: d' in_update_where)
    moreover from this(1) have "payment_typed L d q'" using assms(2) by (simp add: schema_ok_def)
    ultimately show ?thesis by (simp add: payment_typed_def d')
  qed
  ultimately show ?thesis
    by (intro schema_ok_more [OF assms(2) w]) (auto simp: d')
qed

lemma schema_refund_accepted:
  assumes "refund_accepted L t pid k amt row d d'" and "schema_ok L d"
  shows "schema_ok L d'"
proof -
  obtain p evs au ob where p: "refund_allowed t pid amt p d"
      "Some (ref_currency row) = pg_char3 L (to_upper (l_upper L) (trim_space (pay_currency p)))"
    and row: "ref_idem row = (t, scope_refund_create, k)" "ref_payment row = pid" "ref_amount row = amt" "ref_status row = ''pending''"
    and evs: "event_added t (pid, refund_dedupe L (ref_id row) '':requested'') ledger_refund_requested (ledger d) evs"
    and ob: "out_kind ob = kind_refund_settlement"
    and d': "d' = d\<lparr>audits := audits d @ [au], ledger := ledger d @ evs, refunds := refunds d @ [row], outbox := outbox d @ [ob]\<rparr>"
    using assms(1) unfolding refund_accepted_def by blast
  have o: "owners d' = owners d" by (simp add: owners_def d')
  have pt: "(pid, t) \<in> owners d'" and amt: "0 < sint amt"
    using refund_allowed_row [OF p(1)] owners_found [of p d] o by auto
  have w: "wider d d'" unfolding wider_def o by (auto simp: d' refund_owners_def)
  have "\<forall>ev \<in> set evs. event_typed d' ev" using pt by (intro event_added_typed [OF evs]) auto
  moreover have "refund_typed L d' row"
    using row p(2) amt pt by (auto simp: refund_typed_def is_currency_def ref_idem_def)
  ultimately show ?thesis
    using ob by (intro schema_ok_more [OF assms(2) w]) (auto simp: d')
qed

lemma schema_refund_settled:
  assumes "refund_settled_once L rid d d'" and "schema_ok L d"
  shows "schema_ok L d'"
proof (rule refund_settled_onceE [OF assms(1)])
  fix r p now evs
  assume r: "r \<in> set (refunds d)"
    and evs: "event_added (ref_tenant r) (ref_payment r, refund_dedupe L rid '':succeeded'') ledger_refund_succeeded (ledger d) evs"
    and d': "d' = d\<lparr>ledger := ledger d @ evs,
       refunds := update_where (\<lambda>r. ref_id r = rid \<and> ref_status r = ''pending'')
         (\<lambda>r. r\<lparr>ref_status := ''succeeded'', ref_updated := now\<rparr>) (refunds d)\<rparr>"
  have o: "owners d' = owners d" by (simp add: owners_def d')
  have w: "wider d d'" unfolding wider_def o by (simp add: d' refund_owners_def refund_owners_update)
  have "(ref_payment r, ref_tenant r) \<in> owners d'"
    using r assms(2) unfolding o by (auto simp: schema_ok_def refund_typed_def)
  then have "\<forall>ev \<in> set evs. event_typed d' ev" by (intro event_added_typed [OF evs]) auto
  moreover have "refund_typed L d' q" if "q \<in> set (refunds d')" for q
  proof -
    obtain q' where "q' \<in> set (refunds d)"
        "q = (if ref_id q' = rid \<and> ref_status q' = ''pending'' then q'\<lparr>ref_status := ''succeeded'', ref_updated := now\<rparr> else q')"
      using \<open>q \<in> set (refunds d')\<close> by (auto simp: d' in_update_where)
    moreover from this(1) have "refund_typed L d q'" using assms(2) by (simp add: schema_ok_def)
    ultimately show ?thesis by (simp add: refund_typed_def o)
  qed
  ultimately show ?thesis
    by (intro schema_ok_more [OF assms(2) w]) (auto simp: d')
qed

lemma schema_outbox:
  assumes "outbox_serves L ob fu d d'" and "schema_ok L d"
  shows "schema_ok L d'"
proof -
  obtain d1 t where "row_settled L ob fu d d1" and d': "d' = mark_processed (out_id ob) t d1"
    using assms(1) by (auto simp: outbox_serves_def)
  then have d1: "schema_ok L d1"
    using assms(2) by (auto simp: row_settled_def intro: schema_settled schema_refund_settled)
  show ?thesis
    unfolding d' by (rule schema_ok_more [OF d1]) (auto simp: wider_def owners_def refund_owners_def mark_processed_def in_update_where split: if_splits)
qed

lemma delivery_move_typed: "delivery_move r r' \<Longrightarrow> delivery_typed d r \<Longrightarrow> delivery_typed d r'"
  by (cases "del_refund r") (auto simp: delivery_typed_def elim!: delivery_move.cases)

lemma schema_deliveries_moved:
  assumes "deliveries_moved d d'" and "schema_ok L d"
  shows "schema_ok L d'"
proof -
  obtain ds where ds: "list_all2 (\<lambda>r r'. r' = r \<or> delivery_move r r') (deliveries d) ds" "d' = d\<lparr>deliveries := ds\<rparr>"
    using assms(1) by (auto simp: deliveries_moved_def)
  have w: "wider d d'" by (simp add: wider_def ds(2) owners_def refund_owners_def)
  have x: "delivery_typed d x" if "x \<in> set ds" for x
  proof -
    obtain i where "i < length ds" "x = ds ! i" using \<open>x \<in> set ds\<close> by (auto simp: in_set_conv_nth)
    then have "deliveries d ! i \<in> set (deliveries d)" "x = deliveries d ! i \<or> delivery_move (deliveries d ! i) x"
      using ds(1) by (simp_all add: list_all2_conv_all_nth)
    moreover from this(1) have "delivery_typed d (deliveries d ! i)" using assms(2) by (simp add: schema_ok_def)
    ultimately show ?thesis by (auto intro: delivery_move_typed)
  qed
  show ?thesis
  proof (rule schema_ok_more [OF assms(2) w], goal_cases)
    case (6 x)
    then show ?case using typed_wider(4) [OF w x] by (simp add: ds(2))
  qed (auto simp: ds(2))
qed

lemma schema_delivery_added:
  assumes "delivery_added n r d d'" and "schema_ok L d" and "delivery_typed d r"
  shows "schema_ok L d'"
proof -
  have d': "d' = d\<lparr>deliveries := deliveries d @ [r]\<rparr>" using assms(1) by (simp add: delivery_added_def)
  have w: "wider d d'" by (simp add: d' wider_def owners_def refund_owners_def)
  show ?thesis
    using typed_wider(4) [OF w assms(3)] by (intro schema_ok_more [OF assms(2) w]) (auto simp: d')
qed

lemma notified_typed:
  "sql_settled_payment pid d = Some (p, t) \<Longrightarrow> delivery_added (payment_delivery L p url) r d d' \<Longrightarrow> delivery_typed d r"
  using settled_payment_row [of pid d p t] owners_found [of p d]
  by (auto simp: delivery_added_def delivery_row_def payment_delivery_def delivery_typed_def del_key_def)

lemma refund_notified_typed:
  "schema_ok L d \<Longrightarrow> sql_succeeded_refund rid d = Some (rf, t) \<Longrightarrow> delivery_added (refund_delivery L rf url) r d d' \<Longrightarrow>
   delivery_typed d r"
  using succeeded_refund_row [of rid d rf t]
  by (auto simp: delivery_added_def delivery_row_def refund_delivery_def delivery_typed_def del_key_def
      schema_ok_def refund_typed_def refund_owners_def)

lemma schema_step:
  assumes "db_step L d d'" and "schema_ok L d"
  shows "schema_ok L d'"
  using assms(1)
proof cases
  case payment_accepted
  then show ?thesis by (rule schema_accepted [OF _ assms(2)])
next
  case payment_settles
  then show ?thesis by (rule schema_settled [OF _ assms(2)])
next
  case refund_requested
  then show ?thesis by (rule schema_refund_accepted [OF _ assms(2)])
next
  case refund_settles
  then show ?thesis by (rule schema_refund_settled [OF _ assms(2)])
next
  case outbox_served
  then show ?thesis by (rule schema_outbox [OF _ assms(2)])
next
  case payment_notified
  then show ?thesis by (blast intro: schema_delivery_added [OF _ assms(2)] notified_typed)
next
  case refund_notified
  then show ?thesis by (blast intro: schema_delivery_added [OF _ assms(2)] refund_notified_typed [OF assms(2)])
next
  case delivery_moves
  then show ?thesis by (rule schema_deliveries_moved [OF _ assms(2)])
next
  case onboarded
  then show ?thesis
    by (intro schema_ok_more [OF assms(2)]) (auto simp: tenant_created_def wider_def owners_def refund_owners_def)
qed (intro schema_ok_more [OF assms(2)];
    auto simp: wider_def owners_def refund_owners_def in_update_where ids_update_where)+

lemma schema_run: "db_run L d d' \<Longrightarrow> schema_ok L d \<Longrightarrow> schema_ok L d'"
  by (induction rule: rtranclp_induct) (auto intro: schema_step)

section \<open>Every reachable state is typed\<close>



end
