(* ===== verification/Transactions.thy ===== *)
theory Transactions
  imports Worker
begin

text \<open>
  The five transactions that meet on the same rows, statement by statement: \<open>Create\<close> of
  payments and of refunds, both \<open>SettleMock\<close>, and \<open>tryProcessOutbox\<close>. A transaction
  (\<open>prog\<close>) is a tree of statements; each names the locks it takes (\<open>FOR UPDATE\<close> rows, the
  unique keys of an inserted row) and the row versions it writes. \<open>serial\<close> runs it alone; the last
  section proves that the operations of the other theories are exactly the serial runs of these programs.
  How several run at once is in \<open>Locking\<close>.
\<close>

section \<open>Row versions\<close>

text \<open>
  What a statement leaves to be written: for every row it changed the old and the new version, and the
  rows it added. A new version replaces its old one where that is still the current one.
\<close>

datatype row_write =
    PutPayments "(payment \<times> payment) list"
  | PutRefunds "(refund \<times> refund) list"
  | PutOutbox "(outbox_row \<times> outbox_row) list"
  | AddPayments "payment list"
  | AddRefunds "refund list"
  | AddLedger "ledger_event list"
  | AddAudits "audit_row list"
  | AddOutbox "outbox_row list"

definition changed_rows :: "'r list \<Rightarrow> 'r list \<Rightarrow> ('r \<times> 'r) list" where
  "changed_rows old new = filter (\<lambda>(x, y). x \<noteq> y) (zip old new)"

definition put_rows :: "('r \<times> 'r) list \<Rightarrow> 'r list \<Rightarrow> 'r list" where
  "put_rows ps xs = map (\<lambda>x. case map_of ps x of None \<Rightarrow> x | Some y \<Rightarrow> y) xs"

definition writes_of :: "db \<Rightarrow> db \<Rightarrow> row_write list" where
  "writes_of v v' =
     [PutPayments (changed_rows (payments v) (payments v')), PutRefunds (changed_rows (refunds v) (refunds v')),
      PutOutbox (changed_rows (outbox v) (outbox v')),
      AddPayments (drop (length (payments v)) (payments v')), AddRefunds (drop (length (refunds v)) (refunds v')),
      AddLedger (drop (length (ledger v)) (ledger v')), AddAudits (drop (length (audits v)) (audits v')),
      AddOutbox (drop (length (outbox v)) (outbox v'))]"

fun apply_write :: "row_write \<Rightarrow> db \<Rightarrow> db" where
  "apply_write (PutPayments ps) d = d\<lparr>payments := put_rows ps (payments d)\<rparr>"
| "apply_write (PutRefunds ps) d = d\<lparr>refunds := put_rows ps (refunds d)\<rparr>"
| "apply_write (PutOutbox ps) d = d\<lparr>outbox := put_rows ps (outbox d)\<rparr>"
| "apply_write (AddPayments rs) d = d\<lparr>payments := payments d @ rs\<rparr>"
| "apply_write (AddRefunds rs) d = d\<lparr>refunds := refunds d @ rs\<rparr>"
| "apply_write (AddLedger rs) d = d\<lparr>ledger := ledger d @ rs\<rparr>"
| "apply_write (AddAudits rs) d = d\<lparr>audits := audits d @ rs\<rparr>"
| "apply_write (AddOutbox rs) d = d\<lparr>outbox := outbox d @ rs\<rparr>"

definition apply_writes :: "row_write list \<Rightarrow> db \<Rightarrow> db" where
  "apply_writes ws d = fold apply_write ws d"

lemma apply_writes_simps [simp]:
  "apply_writes [] d = d" "apply_writes (x # ws) d = apply_writes ws (apply_write x d)"
  "apply_writes (ws @ us) d = apply_writes us (apply_writes ws d)"
  by (simp_all add: apply_writes_def)

lemma map_of_changed:
  "map_of (changed_rows xs (map h xs)) x = (if x \<in> set xs \<and> h x \<noteq> x then Some (h x) else None)"
  by (induction xs) (auto simp: changed_rows_def)

lemma changed_rows_same [simp]: "changed_rows xs xs = []" "changed_rows xs (xs @ ys) = []"
  by (induction xs) (auto simp: changed_rows_def)

lemma put_rows_Nil [simp]: "put_rows [] xs = xs"
  by (simp add: put_rows_def)

text \<open>On rows that are as they were, the new versions are those the statement computed.\<close>

lemma put_changed: "put_rows (changed_rows xs (map h xs)) ys = map (\<lambda>y. if y \<in> set xs then h y else y) ys"
  by (auto simp: put_rows_def map_of_changed)

lemma put_changed_same [simp]: "put_rows (changed_rows xs (map h xs)) xs = map h xs"
  by (simp add: put_changed)

section \<open>Transactions as programs\<close>

text \<open>
  The locks: rows taken with \<open>FOR UPDATE\<close>, and the values an inserted row puts under a unique
  index, on which another insert of the same value waits.
\<close>

datatype lock =
    PaymentRow uuid
  | RefundRow uuid
  | OutboxRow uuid
  | PaymentId uuid
  | PaymentKey "uuid \<times> string \<times> string"
  | RefundId uuid
  | RefundKey "uuid \<times> string \<times> string"
  | LedgerKey "uuid \<times> string"
  | OutboxId uuid

text \<open>
  \<open>Return\<close> commits, \<open>Done\<close> ends without a commit, \<open>Throw\<close> rolls back. A statement sees the locks of the others (only
  \<open>SKIP LOCKED\<close> looks at them), what it draws on and the tables as this transaction sees them; it fails,
  or takes locks, writes, and goes on.
\<close>

datatype 'a prog =
    Return 'a
  | Done 'a
  | Throw err
  | Stmt "lock set \<Rightarrow> gen \<Rightarrow> db \<Rightarrow> err + (lock list \<times> row_write list)" "lock set \<Rightarrow> gen \<Rightarrow> db \<Rightarrow> 'a prog"

definition sql_unlocked :: "('x \<Rightarrow> lock list) \<Rightarrow> (lock set \<Rightarrow> 'x stmt) \<Rightarrow> ('x \<Rightarrow> 'a prog) \<Rightarrow> 'a prog" where
  "sql_unlocked lk st k = Stmt
     (\<lambda>held g v. case st held g v of Inl e \<Rightarrow> Inl e | Inr (x, v') \<Rightarrow> Inr (lk x, writes_of v v'))
     (\<lambda>held g v. case st held g v of Inl e \<Rightarrow> Throw e | Inr (x, v') \<Rightarrow> k x)"

definition sql :: "('x \<Rightarrow> lock list) \<Rightarrow> 'x stmt \<Rightarrow> ('x \<Rightarrow> 'a prog) \<Rightarrow> 'a prog" where
  "sql lk st = sql_unlocked lk (\<lambda>_. st)"

definition sql_query :: "('x \<Rightarrow> lock list) \<Rightarrow> (db \<Rightarrow> 'x) \<Rightarrow> ('x \<Rightarrow> 'a prog) \<Rightarrow> 'a prog" where
  "sql_query lk f = sql lk (\<lambda>_ d. Inr (f d, d))"

text \<open>Run alone on the open transaction of a world, any call failing.\<close>

primrec serial :: "'a prog \<Rightarrow> 'a action" where
  "serial (Return x) = op_then commit_tx (\<lambda>_. op_ok x)"
| "serial (Done x) = op_ok x"
| "serial (Throw e) = op_err e"
| "serial (Stmt f k) = (\<lambda>w.
     if cur_fault w = Fails then (Inl ErrDB, tick w)
     else (case f {} (gen_of w) (w_tx w) of
             Inl e \<Rightarrow> (Inl e, spend w)
           | Inr (l, ws) \<Rightarrow>
               let u = (spend w)\<lparr>w_tx := apply_writes ws (w_tx w)\<rparr>
               in if cur_fault w = LostAck then (Inl ErrDB, u) else serial (k {} (gen_of w) (w_tx w)) u))"

text \<open>A statement that only changes rows in place and adds rows.\<close>

definition row_stmt :: "'x stmt \<Rightarrow> bool" where
  "row_stmt st \<longleftrightarrow> (\<forall>g v x v'. st g v = Inr (x, v') \<longrightarrow> apply_writes (writes_of v v') v = v')"

lemma serial_unlocked:
  assumes "row_stmt (st {})"
  shows "serial (sql_unlocked lk st k) = op_then (exec Tx (st {})) (\<lambda>x. serial (k x))"
proof
  fix w
  show "serial (sql_unlocked lk st k) w = op_then (exec Tx (st {})) (\<lambda>x. serial (k x)) w"
    using assms
    by (auto simp: sql_unlocked_def row_stmt_def exec_def op_then_def Let_def split: sum.splits prod.splits)
qed

lemma serial_sql: "row_stmt st \<Longrightarrow> serial (sql lk st k) = op_then (exec Tx st) (\<lambda>x. serial (k x))"
  unfolding sql_def by (rule serial_unlocked)

lemma serial_query: "serial (sql_query lk f k) = op_then (query Tx f) (\<lambda>x. serial (k x))"
  unfolding sql_query_def query_def by (rule serial_sql) (simp add: row_stmt_def writes_of_def)

section \<open>The five transactions\<close>

fun ledger_locks :: "ledger_event option \<Rightarrow> lock list" where
  "ledger_locks None = []"
| "ledger_locks (Some e) = [LedgerKey (led_key e)]"

definition append_prog ::
  "uuid \<Rightarrow> uuid \<Rightarrow> string \<Rightarrow> string \<Rightarrow> (string \<times> json) list \<Rightarrow> 'a prog \<Rightarrow> 'a prog" where
  "append_prog tenant pid dedupe event obj k =
     sql ledger_locks (sql_insert_ledger tenant pid dedupe event (JObj obj)) (\<lambda>_. k)"

definition audit_prog :: "uuid \<Rightarrow> string \<Rightarrow> (string \<times> json) list \<Rightarrow> 'a prog \<Rightarrow> 'a prog" where
  "audit_prog tenant event obj k = sql (\<lambda>_. []) (sql_insert_audit (Some tenant) event (JObj obj)) (\<lambda>_. k)"

text \<open>The new row's identifier is what the statement drew.\<close>

definition outbox_prog :: "string \<Rightarrow> (string \<times> json) list \<Rightarrow> 'a prog \<Rightarrow> 'a prog" where
  "outbox_prog kind obj k =
     sql (\<lambda>oid. [OutboxId oid])
       (\<lambda>g d. map_sum id (map_prod (\<lambda>_. g_uuid g) id) (sql_insert_outbox kind (JObj obj) g d)) (\<lambda>_. k)"

definition payment_prog ::
  "lib \<Rightarrow> uuid \<Rightarrow> string \<Rightarrow> int64 \<Rightarrow> string \<Rightarrow> string \<Rightarrow> (payment \<times> bool) prog" where
  "payment_prog L tenant key amt cur fp =
     sql (\<lambda>ins. case ins of None \<Rightarrow> [] | Some row \<Rightarrow> [PaymentKey (pay_idem row), PaymentId (pay_id row)])
       (sql_insert_payment L tenant amt cur scope_payment_create key fp) (\<lambda>ins.
     case ins of
       None \<Rightarrow>
         sql_query (\<lambda>_. []) (sql_select_payment_by_key tenant scope_payment_create key) (\<lambda>found.
         case found of
           None \<Rightarrow> Throw ErrNoRows
         | Some row \<Rightarrow>
             if pay_hash row \<noteq> fp then Throw ErrPaymentIdempotencyMismatch
             else Return (created_payment tenant amt cur key (pay_hash row) row, False))
     | Some row \<Rightarrow>
         append_prog tenant (pay_id row) ledger_payment_accepted ledger_payment_accepted
           [(''amount_cents'', JNum (sint amt)), (''currency'', JStr cur)]
         (audit_prog tenant ''payment_created''
           [(''payment_id'', JStr (l_uuid_string L (pay_id row))), (''amount_cents'', JNum (sint amt)),
            (''currency'', JStr cur)]
         (outbox_prog kind_payment_settlement [(''payment_id'', JStr (l_uuid_string L (pay_id row)))]
         (Return (created_payment tenant amt cur key fp row, True)))))"

definition refund_prog ::
  "lib \<Rightarrow> uuid \<Rightarrow> uuid \<Rightarrow> string \<Rightarrow> int64 \<Rightarrow> (refund \<times> bool) prog" where
  "refund_prog L tenant pid key amount =
     sql_query (\<lambda>found. case found of None \<Rightarrow> [] | Some p \<Rightarrow> [PaymentRow pid])
       (\<lambda>d. find (\<lambda>p. pay_id p = pid) (payments d)) (\<lambda>found.
     case found of
       None \<Rightarrow> Throw ErrRefundNotFound
     | Some p \<Rightarrow>
         if pay_tenant p \<noteq> tenant then Throw ErrRefundNotFound
         else if pay_status p \<noteq> ''succeeded'' then Throw ErrPaymentNotRefundable
         else
         let amt = (if amount = 0 then pay_amount p else amount) in
         if sint amt \<le> 0 \<or> sint amt > sint (pay_amount p) then Throw (ErrRefundInvalidInput [])
         else
         sql_query (\<lambda>_. []) (\<lambda>d. scan_int64 (reserved_sum pid d)) (\<lambda>total.
         case total of
           None \<Rightarrow> Throw ErrDB
         | Some reserved \<Rightarrow>
             if sint (reserved + amt) > sint (pay_amount p) then Throw ErrRefundAmountExceeded
             else
             let fp = refund_fingerprint L pid amt;
                 cur = to_upper (l_upper L) (trim_space (pay_currency p)) in
             sql (\<lambda>ins. case ins of None \<Rightarrow> [] | Some row \<Rightarrow> [RefundKey (ref_idem row), RefundId (ref_id row)])
               (sql_insert_refund L tenant pid amt cur scope_refund_create key fp) (\<lambda>ins.
             case ins of
               None \<Rightarrow>
                 sql_query (\<lambda>_. []) (sql_select_refund_by_key tenant scope_refund_create key) (\<lambda>old.
                 case old of
                   None \<Rightarrow> Throw ErrNoRows
                 | Some row \<Rightarrow>
                     if ref_hash row \<noteq> fp then Throw ErrRefundIdempotencyMismatch
                     else Return (created_refund tenant pid amt cur key (ref_hash row) row, False))
             | Some row \<Rightarrow>
                 append_prog tenant pid (refund_dedupe L (ref_id row) '':requested'') ledger_refund_requested
                   [(''refund_id'', JStr (l_uuid_string L (ref_id row))), (''amount_cents'', JNum (sint amt)),
                    (''currency'', JStr cur)]
                 (audit_prog tenant ''refund_created''
                   [(''refund_id'', JStr (l_uuid_string L (ref_id row))), (''payment_id'', JStr (l_uuid_string L pid)),
                    (''amount_cents'', JNum (sint amt))]
                 (outbox_prog kind_refund_settlement [(''refund_id'', JStr (l_uuid_string L (ref_id row)))]
                 (Return (created_refund tenant pid amt cur key fp row, True)))))))"

text \<open>\<open>SettleMockTx\<close> goes on with \<open>k\<close> in the same transaction.\<close>

definition payment_settle_prog :: "uuid \<Rightarrow> 'a prog \<Rightarrow> 'a prog" where
  "payment_settle_prog pid k =
     sql_query (\<lambda>r. case r of None \<Rightarrow> [] | Some x \<Rightarrow> [PaymentRow pid])
       (\<lambda>d. map_option (\<lambda>p. (pay_tenant p, pay_status p)) (find (\<lambda>p. pay_id p = pid) (payments d))) (\<lambda>r.
     case r of
       None \<Rightarrow> k
     | Some (tenant, status) \<Rightarrow>
         if status = ''succeeded'' then k
         else append_prog tenant pid ledger_settlement_completed ledger_settlement_completed [(''mock'', JBool True)]
                (sql (\<lambda>_. []) (sql_settle_payment pid) (\<lambda>_. k)))"

definition refund_settle_prog :: "lib \<Rightarrow> uuid \<Rightarrow> 'a prog \<Rightarrow> 'a prog" where
  "refund_settle_prog L rid k =
     sql_query (\<lambda>r. case r of None \<Rightarrow> [] | Some (r, p) \<Rightarrow> [RefundRow rid, PaymentRow (pay_id p)])
       (sql_refund_with_payment rid) (\<lambda>found.
     case found of
       None \<Rightarrow> k
     | Some (r, p) \<Rightarrow>
         if ref_status r \<noteq> ''pending'' then k
         else if pay_status p \<noteq> ''succeeded'' then Throw (ErrRefundSettle (ref_payment r) (pay_status p))
         else append_prog (ref_tenant r) (ref_payment r) (refund_dedupe L rid '':succeeded'') ledger_refund_succeeded
                [(''refund_id'', JStr (l_uuid_string L rid))]
                (sql (\<lambda>_. []) (sql_settle_refund rid) (\<lambda>_. k)))"

text \<open>\<open>FOR UPDATE SKIP LOCKED\<close>: the oldest unprocessed row that no other transaction has locked.\<close>

definition sql_next_unlocked :: "lock set \<Rightarrow> db \<Rightarrow> outbox_row option" where
  "sql_next_unlocked held d =
     (case sort_key out_created (filter (\<lambda>x. out_processed x = None \<and> OutboxRow (out_id x) \<notin> held) (outbox d)) of
        [] \<Rightarrow> None
      | ob # _ \<Rightarrow> Some ob)"

definition settle_row_prog :: "lib \<Rightarrow> outbox_row \<Rightarrow> (outbox_followup \<Rightarrow> 'a prog) \<Rightarrow> 'a prog" where
  "settle_row_prog L ob k =
     (if out_kind ob = kind_payment_settlement then
        (case string_field ''payment_id'' (out_payload ob) of
           None \<Rightarrow> Throw ErrJSON
         | Some s \<Rightarrow>
             (case l_uuid_parse L s of
                None \<Rightarrow> Throw (ErrUUID s)
              | Some pid \<Rightarrow> payment_settle_prog pid (k \<lparr>fu_payment = Some pid, fu_refund = None\<rparr>)))
      else if out_kind ob = kind_refund_settlement then
        (case string_field ''refund_id'' (out_payload ob) of
           None \<Rightarrow> Throw ErrJSON
         | Some s \<Rightarrow>
             (case l_uuid_parse L s of
                None \<Rightarrow> Throw (ErrUUID s)
              | Some rid \<Rightarrow> refund_settle_prog L rid (k \<lparr>fu_payment = None, fu_refund = Some rid\<rparr>)))
      else Throw (ErrUnknownKind (out_kind ob)))"

definition process_outbox_prog :: "lib \<Rightarrow> outbox_followup prog" where
  "process_outbox_prog L =
     sql_unlocked (\<lambda>r. case r of None \<Rightarrow> [] | Some ob \<Rightarrow> [OutboxRow (out_id ob)])
       (\<lambda>held g d. Inr (sql_next_unlocked held d, d)) (\<lambda>row.
     case row of
       None \<Rightarrow> Done \<lparr>fu_payment = None, fu_refund = None\<rparr>
     | Some ob \<Rightarrow>
         settle_row_prog L ob (\<lambda>fu. sql (\<lambda>_. []) (sql_mark_processed (out_id ob)) (\<lambda>_. Return fu)))"

section \<open>Alone they are the operations\<close>

lemma row_stmts [simp]:
  "row_stmt (sql_insert_payment L t a c s k h)" "row_stmt (sql_insert_refund L t p a c s k h)"
  "row_stmt (sql_insert_ledger t p d e j)" "row_stmt (sql_insert_audit x e j)"
  "row_stmt (\<lambda>g d. map_sum id (map_prod (\<lambda>_. g_uuid g) id) (sql_insert_outbox kd j g d))"
  by (auto simp: row_stmt_def writes_of_def sql_insert_payment_def sql_insert_refund_def sql_insert_ledger_def
      sql_insert_audit_def sql_insert_outbox_def Let_def split: if_splits option.splits)

lemma row_stmt_updates [simp]:
  "row_stmt (sql_settle_payment pid)" "row_stmt (sql_settle_refund rid)" "row_stmt (sql_mark_processed oid)"
  by (simp_all add: row_stmt_def writes_of_def sql_settle_payment_def sql_settle_refund_def sql_mark_processed_def
      update_where_def)

lemma op_then_ok_right [simp]: "op_then m op_ok = m" "op_then m (\<lambda>_. op_ok ()) = m"
  by (rule ext, simp add: op_defs split: prod.splits sum.splits)+

lemma serial_append:
  "serial (append_prog t p d e obj k) = op_then (ledger_append Tx t p d e (Some obj)) (\<lambda>_. serial k)"
  by (simp add: append_prog_def serial_sql ledger_append_def op_then_assoc)

lemma serial_audit:
  "serial (audit_prog t e obj k) = op_then (audit_write Tx (Some t) e (Some obj)) (\<lambda>_. serial k)"
  by (simp add: audit_prog_def serial_sql audit_write_def)

lemma exec_map_result:
  "op_then (exec Tx (\<lambda>g d. map_sum id (map_prod (h g) id) (st g d))) (\<lambda>_. m) = op_then (exec Tx st) (\<lambda>_. m)"
  by (rule ext) (auto simp: exec_def op_then_def split: sum.splits prod.splits)

lemma serial_outbox:
  "serial (outbox_prog kind obj k) = op_then (exec Tx (sql_insert_outbox kind (JObj obj))) (\<lambda>_. serial k)"
  by (simp add: outbox_prog_def serial_sql exec_map_result)

lemmas serial_simps =
  serial_sql serial_query serial_append serial_audit serial_outbox op_then_assoc Let_def
  option.case_distrib [where h = serial] if_distrib [where f = serial]

lemma serial_payment_settle:
  "serial (payment_settle_prog pid k) = op_then (payment_settle_tx pid) (\<lambda>_. serial k)"
  unfolding payment_settle_prog_def payment_settle_tx_def serial_query op_then_assoc
  by (intro arg_cong2 [where f = op_then] refl ext)
    (auto simp: serial_append serial_sql op_then_assoc split: option.splits)

lemma serial_refund_settle:
  "serial (refund_settle_prog L rid k) = op_then (refund_settle_tx L rid) (\<lambda>_. serial k)"
  unfolding refund_settle_prog_def refund_settle_tx_def serial_query op_then_assoc
  by (intro arg_cong2 [where f = op_then] refl ext)
    (auto simp: serial_append serial_sql op_then_assoc split: option.splits)

lemma serial_settle_row:
  "serial (settle_row_prog L ob k) = op_then (settle_outbox_row L ob) (\<lambda>fu. serial (k fu))"
  by (auto simp: settle_row_prog_def settle_outbox_row_def serial_payment_settle serial_refund_settle op_then_assoc
      split: option.splits)

lemma next_unlocked_alone [simp]: "sql_next_unlocked {} = sql_next_outbox"
  by (rule ext) (simp add: sql_next_unlocked_def sql_next_outbox_def)

lemma process_outbox_serial: "try_process_outbox L = with_tx (serial (process_outbox_prog L))"
proof -
  have "row_stmt (\<lambda>g d. Inr (sql_next_unlocked {} d, d))"
    by (simp add: row_stmt_def writes_of_def)
  then show ?thesis
    unfolding process_outbox_prog_def try_process_outbox_def
    by (simp add: serial_unlocked query_def)
      (intro arg_cong [where f = with_tx] arg_cong2 [where f = op_then] refl ext,
       auto simp: serial_settle_row serial_sql split: option.splits)
qed

lemma payment_settle_serial: "payment_settle pid = with_tx (serial (payment_settle_prog pid (Return ())))"
  by (simp add: payment_settle_def serial_payment_settle)

lemma refund_settle_serial: "refund_settle L rid = with_tx (serial (refund_settle_prog L rid (Return ())))"
  by (simp add: refund_settle_def serial_refund_settle)

lemma refund_create_serial:
  "refund_create L t pid k amount =
     (if trim_space k = [] \<or> length k > 200 then op_err (ErrRefundInvalidInput ''idempotency key'')
      else with_tx (serial (refund_prog L t pid k amount)))"
  by (simp add: refund_create_def refund_prog_def serial_simps insert_refund_settlement_def
      cong: option.case_cong if_cong)

lemma with_tx_after:
  assumes "\<And>x w. w_db (f x w) = w_db w" and "\<And>x w d. f x (w\<lparr>w_tx := d\<rparr>) = (f x w)\<lparr>w_tx := d\<rparr>"
  shows "with_tx (op_then m (\<lambda>x. op_then (op_mod (f x)) (\<lambda>_. op_ok x))) =
    op_then (with_tx m) (\<lambda>x. op_then (op_mod (f x)) (\<lambda>_. op_ok x))"
  by (rule ext) (auto simp: with_tx_def defer_rollback_def op_defs assms split: prod.splits sum.splits)

lemma payment_create_serial:
  "payment_create L t k amt c = op_then (validate_create amt c k) (\<lambda>_.
     let cur = to_upper (l_upper L) (trim_space c) in
     op_then (with_tx (serial (payment_prog L t k amt cur (request_fingerprint L amt cur)))) (\<lambda>r.
     op_then (op_mod (\<lambda>w. if snd r then w\<lparr>w_created := Suc (w_created w)\<rparr> else w)) (\<lambda>_. op_ok r)))"
proof -
  have skip: "op_then (op_mod (\<lambda>w. w)) f = f ()" for f :: "unit \<Rightarrow> (payment \<times> bool) action"
    by (rule ext) (simp add: op_defs)
  show ?thesis
    unfolding payment_create_def count_payment_def Let_def
    by (subst with_tx_after [symmetric])
      (simp_all add: payment_prog_def serial_simps insert_payment_settlement_def skip
        option.case_distrib [where h = "\<lambda>m. op_then m f" for f] if_distrib [where f = "\<lambda>m. op_then m f" for f]
        cong: option.case_cong if_cong)
qed

text \<open>
  C9: run alone, under whatever failures, the five statement-by-statement programs are exactly the
  operations \<open>Create\<close> of payments and of refunds, both \<open>SettleMock\<close>, and \<open>tryProcessOutbox\<close>.
\<close>

theorem operations_are_programs:
  "payment_create L t k amt c = op_then (validate_create amt c k) (\<lambda>_.
     let cur = to_upper (l_upper L) (trim_space c) in
     op_then (with_tx (serial (payment_prog L t k amt cur (request_fingerprint L amt cur)))) (\<lambda>r.
     op_then (op_mod (\<lambda>w. if snd r then w\<lparr>w_created := Suc (w_created w)\<rparr> else w)) (\<lambda>_. op_ok r))) \<and>
   refund_create L t pid k amt =
     (if trim_space k = [] \<or> length k > 200 then op_err (ErrRefundInvalidInput ''idempotency key'')
      else with_tx (serial (refund_prog L t pid k amt))) \<and>
   payment_settle pid = with_tx (serial (payment_settle_prog pid (Return ()))) \<and>
   refund_settle L rid = with_tx (serial (refund_settle_prog L rid (Return ()))) \<and>
   try_process_outbox L = with_tx (serial (process_outbox_prog L))"
  by (intro conjI payment_create_serial refund_create_serial payment_settle_serial refund_settle_serial
      process_outbox_serial)

end
