(* ===== verification/Locking.thy ===== *)
theory Locking
  imports Transactions
begin

text \<open>
  Transactions side by side, as PostgreSQL runs them at its default level \<open>READ COMMITTED\<close>: every
  statement sees what is committed when it runs and the writes of its own transaction; locks are held to
  the end of the transaction, and a statement that needs one held by another waits. The locale
  \<open>lock_protocol\<close> states what a lock protects and derives that locally safe transactions are safe
  together.
\<close>

section \<open>Sessions and their steps\<close>

record session =
  ses_prog :: "unit prog"
  ses_writes :: "row_write list"
  ses_locks :: "lock set"

record system =
  sys_db :: db
  sys_ses :: "nat \<Rightarrow> session option"

definition forget :: "'a prog \<Rightarrow> unit prog" where
  "forget p = map_prog (\<lambda>_. ()) p"

text \<open>What the transaction \<open>t\<close> sees, and the locks of all sessions but \<open>i\<close>.\<close>

definition view :: "db \<Rightarrow> session \<Rightarrow> db" where
  "view d t = apply_writes (ses_writes t) d"

definition others_hold :: "nat \<Rightarrow> system \<Rightarrow> lock set" where
  "others_hold i s = {x. \<exists>j t. j \<noteq> i \<and> sys_ses s j = Some t \<and> x \<in> ses_locks t}"

definition fresh_session :: "unit prog \<Rightarrow> session" where
  "fresh_session p = \<lparr>ses_prog = p, ses_writes = [], ses_locks = {}\<rparr>"

definition set_session :: "nat \<Rightarrow> session option \<Rightarrow> system \<Rightarrow> system" where
  "set_session i t s = s\<lparr>sys_ses := (sys_ses s)(i := t)\<rparr>"

text \<open>
  One step of the whole: a transaction of \<open>starts\<close> begins, a session executes its next statement
  unless it has to wait, it commits, it ends without effect (an error, a lost connection, a failed
  commit), or some other part of the platform moves (\<open>env\<close>).
\<close>

inductive sys_step ::
  "(unit prog \<Rightarrow> bool) \<Rightarrow> (db \<Rightarrow> db \<Rightarrow> bool) \<Rightarrow> system \<Rightarrow> system \<Rightarrow> bool" for starts env where
  starting: "sys_step starts env s (set_session i (Some (fresh_session p)) s)"
    if "sys_ses s i = None" "starts p"
| statement: "sys_step starts env s (set_session i (Some \<lparr>ses_prog = k (others_hold i s) g (view (sys_db s) t),
      ses_writes = ses_writes t @ ws, ses_locks = ses_locks t \<union> set l\<rparr>) s)"
    if "sys_ses s i = Some t" "ses_prog t = Stmt f k"
      "f (others_hold i s) g (view (sys_db s) t) = Inr (l, ws)" "set l \<inter> others_hold i s = {}"
| committing: "sys_step starts env s (set_session i None (s\<lparr>sys_db := view (sys_db s) t\<rparr>))"
    if "sys_ses s i = Some t" "ses_prog t = Return x"
| ending: "sys_step starts env s (set_session i None s)"
    if "sys_ses s i = Some t"
| elsewhere: "sys_step starts env s (s\<lparr>sys_db := d\<rparr>)"
    if "env (sys_db s) d"

abbreviation sys_run :: "(unit prog \<Rightarrow> bool) \<Rightarrow> (db \<Rightarrow> db \<Rightarrow> bool) \<Rightarrow> system \<Rightarrow> system \<Rightarrow> bool" where
  "sys_run starts env \<equiv> (sys_step starts env)\<^sup>*\<^sup>*"

definition idle :: "db \<Rightarrow> system" where
  "idle d = \<lparr>sys_db = d, sys_ses = (\<lambda>_. None)\<rparr>"

text \<open>
  What the API and the workers begin: any number of each of the five, for any tenant, key, amount,
  payment and refund. The currency and the fingerprint of a payment are those \<open>Create\<close> computes.
\<close>

inductive begins :: "lib \<Rightarrow> unit prog \<Rightarrow> bool" for L :: lib where
  begin_payment: "begins L (forget (payment_prog L t k amt cur fp))"
    if "cur = to_upper (l_upper L) (trim_space c)" "fp = request_fingerprint L amt cur"
| begin_refund: "begins L (forget (refund_prog L t pid k amount))"
| begin_payment_settlement: "begins L (forget (payment_settle_prog pid (Return ())))"
| begin_refund_settlement: "begins L (forget (refund_settle_prog L rid (Return ())))"
| begin_outbox: "begins L (forget (process_outbox_prog L))"

lemma set_session_simps [simp]:
  "sys_db (set_session i t s) = sys_db s" "sys_ses (set_session i t s) = (sys_ses s)(i := t)"
  by (simp_all add: set_session_def)

section \<open>What a lock protects\<close>

text \<open>
  \<open>same x d d'\<close>: what the lock \<open>x\<close> protects is the same in \<open>d'\<close> as in \<open>d\<close>;
  \<open>grows\<close> holds whatever anybody does; \<open>run\<close> is what a whole transaction may do to the tables,
  \<open>inv\<close> what they satisfy.
\<close>

locale lock_protocol =
  fixes same :: "lock \<Rightarrow> db \<Rightarrow> db \<Rightarrow> bool"
    and grows :: "db \<Rightarrow> db \<Rightarrow> bool"
    and inv :: "db \<Rightarrow> bool"
    and run :: "db \<Rightarrow> db \<Rightarrow> bool"
  assumes same_refl: "same x d d"
    and same_trans: "same x d d' \<Longrightarrow> same x d' d'' \<Longrightarrow> same x d d''"
    and grows_refl: "grows d d"
    and grows_trans: "grows d d' \<Longrightarrow> grows d' d'' \<Longrightarrow> grows d d''"
    and run_inv: "run d d' \<Longrightarrow> inv d \<Longrightarrow> inv d'"
begin

text \<open>
  Holding the locks \<open>lk\<close>, a transaction can rely on everybody else for what they protect, and in
  turn leaves alone what other locks protect.
\<close>

definition relies :: "lock set \<Rightarrow> db \<Rightarrow> db \<Rightarrow> bool" where
  "relies lk d d' \<longleftrightarrow> grows d d' \<and> (\<forall>x \<in> lk. same x d d')"

definition leaves :: "lock set \<Rightarrow> db \<Rightarrow> db \<Rightarrow> bool" where
  "leaves lk d d' \<longleftrightarrow> grows d d' \<and> (\<forall>x. x \<notin> lk \<longrightarrow> same x d d')"

definition stable :: "lock set \<Rightarrow> (db \<Rightarrow> bool) \<Rightarrow> bool" where
  "stable lk A \<longleftrightarrow> (\<forall>d d'. A d \<longrightarrow> relies lk d d' \<longrightarrow> A d')"

text \<open>
  \<open>safe lk ws A p\<close>: from a point where the transaction holds \<open>lk\<close>, has written \<open>ws\<close> and
  knows \<open>A\<close> of the committed tables, what it may commit is a run that leaves alone what others hold.
\<close>

inductive safe :: "lock set \<Rightarrow> row_write list \<Rightarrow> (db \<Rightarrow> bool) \<Rightarrow> 'a prog \<Rightarrow> bool" where
  safe_return: "(\<And>d. A d \<Longrightarrow> inv d \<Longrightarrow> run d (apply_writes ws d) \<and> leaves lk d (apply_writes ws d)) \<Longrightarrow>
    safe lk ws A (Return x)"
| safe_done: "safe lk ws A (Done x)"
| safe_throw: "safe lk ws A (Throw e)"
| safe_stmt: "(\<And>held g d l us. A d \<Longrightarrow> inv d \<Longrightarrow> f held g (apply_writes ws d) = Inr (l, us) \<Longrightarrow>
      \<exists>B. stable (lk \<union> set l) B \<and> B d \<and> safe (lk \<union> set l) (ws @ us) B (k held g (apply_writes ws d))) \<Longrightarrow>
    safe lk ws A (Stmt f k)"

lemma safe_stmtD:
  assumes "safe lk ws A (Stmt f k)" and "A d" and "inv d" and "f held g (apply_writes ws d) = Inr (l, us)"
  obtains B where "stable (lk \<union> set l) B" "B d" "safe (lk \<union> set l) (ws @ us) B (k held g (apply_writes ws d))"
  using assms(1)
proof cases
  case safe_stmt
  then show ?thesis using assms(2-4) that by blast
qed

lemma safe_returnD:
  assumes "safe lk ws A (Return x)" and "A d" and "inv d"
  shows "run d (apply_writes ws d)" "leaves lk d (apply_writes ws d)"
  using assms by (auto elim: safe.cases)

lemma safe_forget: "safe lk ws A p \<Longrightarrow> safe lk ws A (forget p)"
proof (induction rule: safe.induct)
  case (safe_stmt A f ws lk k)
  show ?case
    unfolding forget_def prog.map o_apply
    using safe_stmt by (intro safe.safe_stmt) (fastforce simp: forget_def)
qed (auto simp: forget_def intro: safe.intros)

lemma relies_trans: "relies lk d d' \<Longrightarrow> relies lk d' d'' \<Longrightarrow> relies lk d d''"
  unfolding relies_def using grows_trans same_trans by blast

lemma leaves_trans: "leaves lk d d' \<Longrightarrow> leaves lk d' d'' \<Longrightarrow> leaves lk d d''"
  unfolding leaves_def using grows_trans same_trans by blast

lemma leaves_relies: "leaves lk d d' \<Longrightarrow> lk \<inter> mine = {} \<Longrightarrow> relies mine d d'"
  unfolding leaves_def relies_def by blast

definition session_ok :: "db \<Rightarrow> session \<Rightarrow> bool" where
  "session_ok d t \<longleftrightarrow> (\<exists>A. stable (ses_locks t) A \<and> A d \<and> safe (ses_locks t) (ses_writes t) A (ses_prog t))"

definition system_ok :: "system \<Rightarrow> bool" where
  "system_ok s \<longleftrightarrow> inv (sys_db s) \<and> (\<forall>i t. sys_ses s i = Some t \<longrightarrow> session_ok (sys_db s) t) \<and>
     (\<forall>i j t u. i \<noteq> j \<longrightarrow> sys_ses s i = Some t \<longrightarrow> sys_ses s j = Some u \<longrightarrow> ses_locks t \<inter> ses_locks u = {})"

lemma session_ok_relies: "session_ok d t \<Longrightarrow> relies (ses_locks t) d d' \<Longrightarrow> session_ok d' t"
  unfolding session_ok_def stable_def by blast

lemma set_session_ok:
  assumes "system_ok s" and "session_ok (sys_db s) t"
    and "\<And>j u. j \<noteq> i \<Longrightarrow> sys_ses s j = Some u \<Longrightarrow> ses_locks u \<inter> ses_locks t = {}"
  shows "system_ok (set_session i (Some t) s)"
  unfolding system_ok_def set_session_simps
proof (intro conjI allI impI)
  show "inv (sys_db s)" using assms(1) by (simp add: system_ok_def)
next
  fix j u
  assume "((sys_ses s)(i := Some t)) j = Some u"
  then show "session_ok (sys_db s) u" using assms(1,2) by (auto simp: system_ok_def split: if_splits)
next
  fix j l u v
  assume "j \<noteq> l" "((sys_ses s)(i := Some t)) j = Some u" "((sys_ses s)(i := Some t)) l = Some v"
  then show "ses_locks u \<inter> ses_locks v = {}"
    using assms(1) assms(3) [of j u] assms(3) [of l v]
    by (cases "j = i"; cases "l = i") (auto simp: system_ok_def Int_commute)
qed

lemma end_session_ok:
  assumes "system_ok s" and "inv d" and "\<And>j u. j \<noteq> i \<Longrightarrow> sys_ses s j = Some u \<Longrightarrow> session_ok d u"
  shows "system_ok (set_session i None (s\<lparr>sys_db := d\<rparr>))"
  unfolding system_ok_def set_session_simps
proof (intro conjI allI impI)
  show "inv (sys_db (s\<lparr>sys_db := d\<rparr>))" using assms(2) by simp
next
  fix j u
  assume "((sys_ses (s\<lparr>sys_db := d\<rparr>))(i := None)) j = Some u"
  then show "session_ok (sys_db (s\<lparr>sys_db := d\<rparr>)) u" using assms(3) by (simp split: if_splits)
next
  fix j l u v
  assume "j \<noteq> l" "((sys_ses (s\<lparr>sys_db := d\<rparr>))(i := None)) j = Some u" "((sys_ses (s\<lparr>sys_db := d\<rparr>))(i := None)) l = Some v"
  then show "ses_locks u \<inter> ses_locks v = {}"
    using assms(1) unfolding system_ok_def by (simp split: if_splits)
qed

lemma step_ok:
  assumes "sys_step starts env s s'" and "system_ok s"
    and starts: "\<And>p. starts p \<Longrightarrow> safe {} [] (\<lambda>_. True) p"
    and env: "\<And>d d'. env d d' \<Longrightarrow> run d d' \<and> leaves {} d d'"
  shows "system_ok s' \<and> (sys_db s' = sys_db s \<or> run (sys_db s) (sys_db s'))"
  using assms(1)
proof cases
  case (starting i p)
  have "session_ok (sys_db s) (fresh_session p)"
    unfolding session_ok_def fresh_session_def using starts [OF starting(3)]
    by (intro exI [of _ "\<lambda>_. True"]) (simp add: stable_def)
  then show ?thesis
    using assms(2) starting(1) by (auto intro!: set_session_ok simp: fresh_session_def)
next
  case (statement i t f k g l ws)
  obtain A where A: "stable (ses_locks t) A" "A (sys_db s)" "safe (ses_locks t) (ses_writes t) A (Stmt f k)"
    using assms(2) statement(2,3) unfolding system_ok_def session_ok_def by metis
  have "inv (sys_db s)" using assms(2) by (simp add: system_ok_def)
  from safe_stmtD [OF A(3,2) this statement(4) [unfolded view_def]] obtain B where "stable (ses_locks t \<union> set l) B" "B (sys_db s)"
      "safe (ses_locks t \<union> set l) (ses_writes t @ ws) B (k (others_hold i s) g (view (sys_db s) t))"
    unfolding view_def .
  then have ok: "session_ok (sys_db s) \<lparr>ses_prog = k (others_hold i s) g (view (sys_db s) t),
      ses_writes = ses_writes t @ ws, ses_locks = ses_locks t \<union> set l\<rparr>"
    unfolding session_ok_def by auto
  have "ses_locks u \<inter> (ses_locks t \<union> set l) = {}" if "j \<noteq> i" "sys_ses s j = Some u" for j u
    using that statement(2,5) assms(2) unfolding system_ok_def others_hold_def by blast
  then show ?thesis
    unfolding statement(1) by (intro conjI set_session_ok [OF assms(2) ok]) simp_all
next
  case (committing i t x)
  obtain A where A: "A (sys_db s)" "safe (ses_locks t) (ses_writes t) A (Return x)"
    using assms(2) committing(2,3) unfolding system_ok_def session_ok_def by metis
  have inv: "inv (sys_db s)" using assms(2) by (simp add: system_ok_def)
  note c = safe_returnD [OF A(2,1) inv, folded view_def]
  have "session_ok (view (sys_db s) t) u" if "j \<noteq> i" "sys_ses s j = Some u" for j u
  proof (rule session_ok_relies)
    show "session_ok (sys_db s) u" using that assms(2) by (simp add: system_ok_def)
    show "relies (ses_locks u) (sys_db s) (view (sys_db s) t)"
      by (rule leaves_relies [OF c(2)]) (use that committing(2) assms(2) in \<open>metis system_ok_def\<close>)
  qed
  moreover have "inv (view (sys_db s) t)" using run_inv [OF c(1) inv] .
  ultimately show ?thesis
    unfolding committing(1) using c(1) by (intro conjI end_session_ok [OF assms(2)]) simp_all
next
  case (ending i t)
  have "set_session i None s = set_session i None (s\<lparr>sys_db := sys_db s\<rparr>)" by simp
  then show ?thesis
    unfolding ending(1) using assms(2) by (auto intro!: end_session_ok simp: system_ok_def)
next
  case (elsewhere d)
  have e: "run (sys_db s) d" "leaves {} (sys_db s) d" using env [OF elsewhere(2)] by simp_all
  have "session_ok d u" if "sys_ses s j = Some u" for j u
    using session_ok_relies [of "sys_db s" u d] leaves_relies [OF e(2)] that assms(2) by (simp add: system_ok_def)
  moreover have "inv d" using run_inv [OF e(1)] assms(2) by (simp add: system_ok_def)
  ultimately show ?thesis
    using assms(2) e(1) unfolding elsewhere(1) system_ok_def by simp
qed

lemma idle_ok: "inv d \<Longrightarrow> system_ok (idle d)"
  by (simp add: system_ok_def idle_def)

text \<open>Locally safe transactions, run side by side, take the committed tables along runs.\<close>

lemma interleaved_runs:
  assumes "sys_run starts env (idle d) s" and "inv d"
    and "\<And>p. starts p \<Longrightarrow> safe {} [] (\<lambda>_. True) p"
    and "\<And>d d'. env d d' \<Longrightarrow> run d d' \<and> leaves {} d d'"
  shows "system_ok s \<and> run\<^sup>*\<^sup>* d (sys_db s)"
  using assms(1)
proof (induction rule: rtranclp_induct)
  case base
  then show ?case using idle_ok [OF assms(2)] by (simp add: idle_def)
next
  case (step s s')
  have "system_ok s' \<and> (sys_db s' = sys_db s \<or> run (sys_db s) (sys_db s'))"
    using step by (intro step_ok [OF step(2) _ assms(3,4)]) auto
  then show ?case using step(3) by (metis rtranclp.rtrancl_into_rtrancl)
qed

end

section \<open>Safety of one statement\<close>

context lock_protocol begin

lemma stable_both: "stable lk A \<Longrightarrow> stable lk B \<Longrightarrow> stable lk (\<lambda>d. A d \<and> B d)"
  unfolding stable_def by blast

lemma stable_mono: "stable lk A \<Longrightarrow> lk \<subseteq> lk' \<Longrightarrow> stable lk' A"
  unfolding stable_def relies_def by blast

text \<open>
  More may be known than a point needs, and writes may be described by others that do the same wherever
  what is known holds.
\<close>

lemma safe_rewrite_both:
  assumes "safe lk ws A p" and "stable lk C" and "\<And>d. C d \<Longrightarrow> apply_writes us d = apply_writes ws d"
  shows "safe lk us (\<lambda>d. A d \<and> C d) p"
  using assms
proof (induction arbitrary: us rule: safe.induct)
  case (safe_return A ws lk x)
  then show ?case by (intro safe.safe_return) auto
next
  case (safe_stmt A f ws lk k)
  show ?case
  proof (rule safe.safe_stmt)
    fix held g d l vs
    assume d: "A d \<and> C d" "inv d" and f: "f held g (apply_writes us d) = Inr (l, vs)"
    have e: "apply_writes us d = apply_writes ws d" using safe_stmt.prems(2) d(1) by simp
    obtain B where B: "stable (lk \<union> set l) B" "B d" and
      IH: "\<And>us'. stable (lk \<union> set l) C \<Longrightarrow> (\<And>d. C d \<Longrightarrow> apply_writes us' d = apply_writes (ws @ vs) d) \<Longrightarrow>
        safe (lk \<union> set l) us' (\<lambda>d. B d \<and> C d) (k held g (apply_writes ws d))"
      using safe_stmt.IH [of d held g l vs] d f unfolding e by blast
    have "safe (lk \<union> set l) (us @ vs) (\<lambda>d. B d \<and> C d) (k held g (apply_writes us d))"
      unfolding e by (rule IH) (use stable_mono [OF safe_stmt.prems(1)] safe_stmt.prems(2) in auto)
    then show "\<exists>B. stable (lk \<union> set l) B \<and> B d \<and> safe (lk \<union> set l) (us @ vs) B (k held g (apply_writes us d))"
      using B d(1) stable_both [OF B(1) stable_mono [OF safe_stmt.prems(1), of "lk \<union> set l"]] by auto
  qed
qed (auto intro: safe.intros)

lemma safe_weaken:
  assumes "safe lk ws A p" and "\<And>d. B d \<Longrightarrow> A d"
  shows "safe lk ws B p"
  using assms
proof cases
  case (safe_return x)
  then show ?thesis using assms(2) by (auto intro: safe.safe_return)
next
  case (safe_stmt f k)
  then show ?thesis using assms(2) by (auto intro: safe.safe_stmt)
qed (auto intro: safe.intros)

lemma safe_rewrite:
  assumes "safe lk ws A p" and "stable lk A" and "\<And>d. A d \<Longrightarrow> apply_writes us d = apply_writes ws d"
  shows "safe lk us A p"
  by (rule safe_weaken [OF safe_rewrite_both [OF assms]]) simp_all

text \<open>One statement: what is known after it, and what has been written by then.\<close>

lemma safe_sql_unlocked:
  assumes "\<And>held g d x v'. A d \<Longrightarrow> inv d \<Longrightarrow> st held g (apply_writes ws d) = Inr (x, v') \<Longrightarrow>
    \<exists>B us. stable (lk \<union> set (lks x)) B \<and> B d \<and>
      (\<forall>e. B e \<longrightarrow> apply_writes (writes_of (apply_writes ws d) v') (apply_writes ws e) = apply_writes us e) \<and>
      safe (lk \<union> set (lks x)) us B (k x)"
  shows "safe lk ws A (sql_unlocked lks st k)"
  unfolding sql_unlocked_def
proof (rule safe.safe_stmt)
  fix held g d l vs
  assume d: "A d" "inv d" and r: "(case st held g (apply_writes ws d) of Inl e \<Rightarrow> Inl e
      | Inr (x, v') \<Rightarrow> Inr (lks x, writes_of (apply_writes ws d) v')) = Inr (l, vs)"
  then obtain x v' where s: "st held g (apply_writes ws d) = Inr (x, v')" "l = lks x"
      "vs = writes_of (apply_writes ws d) v'"
    by (auto split: sum.splits)
  obtain B us where B: "stable (lk \<union> set l) B" "B d"
      "\<And>e. B e \<Longrightarrow> apply_writes (ws @ vs) e = apply_writes us e" "safe (lk \<union> set l) us B (k x)"
    using assms [OF d s(1)] s(2,3) by auto
  show "\<exists>B. stable (lk \<union> set l) B \<and> B d \<and> safe (lk \<union> set l) (ws @ vs) B
      (case st held g (apply_writes ws d) of Inl e \<Rightarrow> Throw e | Inr (x, v') \<Rightarrow> k x)"
    using B(1,2) safe_rewrite [OF B(4,1,3)] by (auto simp: s(1))
qed

lemmas safe_sql = safe_sql_unlocked [where st = "\<lambda>_. st" for st, folded sql_def]

lemma safe_query:
  assumes "\<And>d. A d \<Longrightarrow> inv d \<Longrightarrow> \<exists>B. stable (lk \<union> set (lks (f (apply_writes ws d)))) B \<and> B d \<and>
      safe (lk \<union> set (lks (f (apply_writes ws d)))) ws B (k (f (apply_writes ws d)))"
  shows "safe lk ws A (sql_query lks f k)"
  unfolding sql_query_def
proof (rule safe_sql)
  fix held :: "lock set" and g d x v'
  assume "A d" "inv d" and "Inr (f (apply_writes ws d), apply_writes ws d) = (Inr (x, v') :: err + _)"
  then have x: "x = f (apply_writes ws d)" "v' = apply_writes ws d" by auto
  obtain B where "stable (lk \<union> set (lks x)) B" "B d" "safe (lk \<union> set (lks x)) ws B (k x)"
    using assms [OF \<open>A d\<close> \<open>inv d\<close>] unfolding x by blast
  then show "\<exists>B us. stable (lk \<union> set (lks x)) B \<and> B d \<and>
      (\<forall>e. B e \<longrightarrow> apply_writes (writes_of (apply_writes ws d) v') (apply_writes ws e) = apply_writes us e) \<and>
      safe (lk \<union> set (lks x)) us B (k x)"
    by (intro exI [of _ B] exI [of _ ws]) (simp add: x(2) writes_of_def)
qed

end

end
