(* ===== verification/Interleaving.thy ===== *)
theory Interleaving
  imports Locking Consistency
begin

text \<open>
  The tables with any number of transactions open at once: what the locks protect, the interpretation of
  \<open>lock_protocol\<close>, the safety of the statements the transactions share and of the two \<open>Create\<close>.
  The settlements, the outbox and the theorems are in \<open>Concurrency\<close>.
\<close>

section \<open>What the locks protect\<close>

text \<open>
  The lock on a payment protects the payment and the refunds of it, that on a refund or an outbox
  row the row; the lock on a unique value, that it is or is not in use.
\<close>

fun unchanged :: "lock \<Rightarrow> db \<Rightarrow> db \<Rightarrow> bool" where
  "unchanged (PaymentRow i) d d' \<longleftrightarrow> i \<in> pay_id ` set (payments d) \<longrightarrow>
     filter (\<lambda>p. pay_id p = i) (payments d') = filter (\<lambda>p. pay_id p = i) (payments d) \<and>
     filter (\<lambda>r. ref_payment r = i) (refunds d') = filter (\<lambda>r. ref_payment r = i) (refunds d)"
| "unchanged (RefundRow i) d d' \<longleftrightarrow> i \<in> ref_id ` set (refunds d) \<longrightarrow>
     filter (\<lambda>r. ref_id r = i) (refunds d') = filter (\<lambda>r. ref_id r = i) (refunds d)"
| "unchanged (OutboxRow i) d d' \<longleftrightarrow> i \<in> out_id ` set (outbox d) \<longrightarrow>
     filter (\<lambda>x. out_id x = i) (outbox d') = filter (\<lambda>x. out_id x = i) (outbox d)"
| "unchanged (PaymentId i) d d' \<longleftrightarrow> (i \<in> pay_id ` set (payments d') \<longleftrightarrow> i \<in> pay_id ` set (payments d))"
| "unchanged (PaymentKey k) d d' \<longleftrightarrow> (k \<in> pay_idem ` set (payments d') \<longleftrightarrow> k \<in> pay_idem ` set (payments d))"
| "unchanged (RefundId i) d d' \<longleftrightarrow> (i \<in> ref_id ` set (refunds d') \<longleftrightarrow> i \<in> ref_id ` set (refunds d))"
| "unchanged (RefundKey k) d d' \<longleftrightarrow> (k \<in> ref_idem ` set (refunds d') \<longleftrightarrow> k \<in> ref_idem ` set (refunds d))"
| "unchanged (LedgerKey k) d d' \<longleftrightarrow> (k \<in> led_key ` set (ledger d') \<longleftrightarrow> k \<in> led_key ` set (ledger d))"
| "unchanged (OutboxId i) d d' \<longleftrightarrow> (i \<in> out_id ` set (outbox d') \<longleftrightarrow> i \<in> out_id ` set (outbox d))"

text \<open>No row of a tenant, a payment or a ledger event ever goes.\<close>

definition only_grows :: "db \<Rightarrow> db \<Rightarrow> bool" where
  "only_grows d d' \<longleftrightarrow> ten_id ` set (tenants d) \<subseteq> ten_id ` set (tenants d') \<and>
     pay_id ` set (payments d) \<subseteq> pay_id ` set (payments d') \<and>
     led_key ` set (ledger d) \<subseteq> led_key ` set (ledger d')"

definition sound_tables :: "lib \<Rightarrow> db \<Rightarrow> bool" where
  "sound_tables L d \<longleftrightarrow> uuid_roundtrip L \<and> consistent L d \<and> accounted d"

lemma in_filter_key:
  "i \<in> key ` set xs \<longleftrightarrow> filter (\<lambda>x. key x = i) xs \<noteq> []"
  by (auto simp: filter_empty_conv)

lemma unchanged_trans: "unchanged x d d' \<Longrightarrow> unchanged x d' d'' \<Longrightarrow> unchanged x d d''"
  by (cases x) (simp_all add: in_filter_key)

interpretation tables: lock_protocol unchanged only_grows "sound_tables L" "db_run L" for L
proof unfold_locales
  show "unchanged x d d" for x d by (cases x) simp_all
  show "unchanged x d d' \<Longrightarrow> unchanged x d' d'' \<Longrightarrow> unchanged x d d''" for x d d' d''
    by (rule unchanged_trans)
  show "only_grows d d" for d by (simp add: only_grows_def)
  show "only_grows d d' \<Longrightarrow> only_grows d' d'' \<Longrightarrow> only_grows d d''" for d d' d''
    unfolding only_grows_def by (elim conjE, intro conjI; erule (1) subset_trans)
  show "db_run L d d' \<Longrightarrow> sound_tables L d \<Longrightarrow> sound_tables L d'" for d d'
    using consistent_run [of L d d'] by (simp add: sound_tables_def)
qed

abbreviation relies_on :: "lock set \<Rightarrow> db \<Rightarrow> db \<Rightarrow> bool" where
  "relies_on \<equiv> lock_protocol.relies unchanged only_grows"

abbreviation leaves_alone :: "lock set \<Rightarrow> db \<Rightarrow> db \<Rightarrow> bool" where
  "leaves_alone \<equiv> lock_protocol.leaves unchanged only_grows"

abbreviation stays :: "lock set \<Rightarrow> (db \<Rightarrow> bool) \<Rightarrow> bool" where
  "stays \<equiv> lock_protocol.stable unchanged only_grows"

abbreviation safe_tx :: "lib \<Rightarrow> lock set \<Rightarrow> row_write list \<Rightarrow> (db \<Rightarrow> bool) \<Rightarrow> 'a prog \<Rightarrow> bool" where
  "safe_tx L \<equiv> lock_protocol.safe unchanged only_grows (sound_tables L) (db_run L)"

text \<open>Assertions that stay.\<close>

lemma stays_True [intro, simp]: "stays lk (\<lambda>_. True)"
  by (simp add: tables.stable_def)

lemma stays_conj [intro]: "stays lk A \<Longrightarrow> stays lk B \<Longrightarrow> stays lk (\<lambda>d. A d \<and> B d)"
  unfolding tables.stable_def by blast

lemma stays_more [elim]: "stays lk A \<Longrightarrow> lk \<subseteq> lk' \<Longrightarrow> stays lk' A"
  unfolding tables.stable_def tables.relies_def by blast

lemma stays_grow [intro]:
  "stays lk (\<lambda>d. t \<in> ten_id ` set (tenants d))" "stays lk (\<lambda>d. i \<in> pay_id ` set (payments d))"
  "stays lk (\<lambda>d. e \<in> led_key ` set (ledger d))"
  unfolding tables.stable_def tables.relies_def only_grows_def by blast+

lemma stays_absent [intro]:
  "PaymentId i \<in> lk \<Longrightarrow> stays lk (\<lambda>d. i \<notin> pay_id ` set (payments d))"
  "PaymentKey k \<in> lk \<Longrightarrow> stays lk (\<lambda>d. k \<notin> pay_idem ` set (payments d))"
  "RefundId i \<in> lk \<Longrightarrow> stays lk (\<lambda>d. i \<notin> ref_id ` set (refunds d))"
  "RefundKey k \<in> lk \<Longrightarrow> stays lk (\<lambda>d. k \<notin> ref_idem ` set (refunds d))"
  "LedgerKey e \<in> lk \<Longrightarrow> stays lk (\<lambda>d. e \<notin> led_key ` set (ledger d))"
  "OutboxId i \<in> lk \<Longrightarrow> stays lk (\<lambda>d. i \<notin> out_id ` set (outbox d))"
  unfolding tables.stable_def tables.relies_def by fastforce+

text \<open>A locked row that is there.\<close>

lemma stays_payment [intro]:
  assumes "PaymentRow i \<in> lk" and "ps \<noteq> []"
  shows "stays lk (\<lambda>d. filter (\<lambda>p. pay_id p = i) (payments d) = ps \<and> filter (\<lambda>r. ref_payment r = i) (refunds d) = rs)"
  using assms unfolding tables.stable_def tables.relies_def by (fastforce simp: in_filter_key)

lemma stays_refund [intro]:
  assumes "RefundRow i \<in> lk" and "rs \<noteq> []"
  shows "stays lk (\<lambda>d. filter (\<lambda>r. ref_id r = i) (refunds d) = rs)"
  using assms unfolding tables.stable_def tables.relies_def by (fastforce simp: in_filter_key)

lemma stays_outbox [intro]:
  assumes "OutboxRow i \<in> lk" and "xs \<noteq> []"
  shows "stays lk (\<lambda>d. filter (\<lambda>x. out_id x = i) (outbox d) = xs)"
  using assms unfolding tables.stable_def tables.relies_def by (fastforce simp: in_filter_key)

section \<open>Statements the transactions share\<close>

lemma put_update:
  assumes "filter (\<lambda>x. key x = k) ys = filter (\<lambda>x. key x = k) xs"
  shows "put_rows (changed_rows xs (update_where (\<lambda>x. key x = k \<and> Q x) f xs)) ys =
    update_where (\<lambda>x. key x = k \<and> Q x) f ys"
proof -
  have "y \<in> set xs" if "y \<in> set ys" "key y = k" for y
  proof -
    have "y \<in> set (filter (\<lambda>x. key x = k) ys)" using that by simp
    then show ?thesis unfolding assms by simp
  qed
  then show ?thesis
    unfolding update_where_def put_changed by (auto intro: map_cong)
qed

lemma safe_append:
  assumes A: "stays lk A" and ws: "\<And>d. A d \<Longrightarrow> ledger (apply_writes ws d) = ledger d"
    and k: "\<And>evs. \<forall>ev \<in> set evs. led_payload ev = JObj obj \<Longrightarrow>
      safe_tx L (lk \<union> set (map (\<lambda>ev. LedgerKey (led_key ev)) evs)) (ws @ [AddLedger evs])
        (\<lambda>d. A d \<and> event_added t (i, dedupe) e (ledger d) evs) k"
  shows "safe_tx L lk ws A (append_prog t i dedupe e obj k)"
  unfolding append_prog_def
proof (rule tables.safe_sql)
  fix held :: "lock set" and g d x v'
  assume d: "A d" "sound_tables L d"
    and s: "sql_insert_ledger t i dedupe e (JObj obj) g (apply_writes ws d) = Inr (x, v')"
  let ?evs = "case x of None \<Rightarrow> [] | Some ev \<Rightarrow> [ev]"
  have pay: "\<forall>ev \<in> set ?evs. led_payload ev = JObj obj"
    using s by (auto split: option.splits dest: sql_insert_ledger_Some)
  have lks: "set (ledger_locks x) = set (map (\<lambda>ev. LedgerKey (led_key ev)) ?evs)" by (cases x) simp_all
  have v': "v' = (apply_writes ws d)\<lparr>ledger := ledger (apply_writes ws d) @ ?evs\<rparr>"
    using s by (cases x) (auto dest: sql_insert_ledger_Some sql_insert_ledger_None)
  have added: "event_added t (i, dedupe) e (ledger d) ?evs"
    using s ws [OF d(1)] by (cases x) (auto simp: event_added_def dest: sql_insert_ledger_Some sql_insert_ledger_None)
  have "stays (lk \<union> set (ledger_locks x)) (\<lambda>d. event_added t (i, dedupe) e (ledger d) ?evs)"
  proof (cases x)
    case None
    then show ?thesis
      using added by (auto simp: event_added_def split: if_splits intro!: stays_grow)
  next
    case (Some ev)
    then show ?thesis
      using added by (auto simp: event_added_def tables.stable_def tables.relies_def split: if_splits)
  qed
  then have st: "stays (lk \<union> set (ledger_locks x)) (\<lambda>d. A d \<and> event_added t (i, dedupe) e (ledger d) ?evs)"
    by (intro stays_conj) (rule stays_more [OF A], simp)
  show "\<exists>B us. stays (lk \<union> set (ledger_locks x)) B \<and> B d \<and>
      (\<forall>e. B e \<longrightarrow> apply_writes (writes_of (apply_writes ws d) v') (apply_writes ws e) = apply_writes us e) \<and>
      safe_tx L (lk \<union> set (ledger_locks x)) us B k"
    using st d(1) added k [OF pay] unfolding lks v'
    by (intro exI [of _ "\<lambda>d. A d \<and> event_added t (i, dedupe) e (ledger d) ?evs"] exI [of _ "ws @ [AddLedger ?evs]"])
      (simp add: writes_of_def)
qed

lemma safe_audit:
  assumes A: "stays lk A"
    and k: "\<And>au. aud_tenant au = Some t \<Longrightarrow> aud_event au = e \<Longrightarrow> safe_tx L lk (ws @ [AddAudits [au]]) A k"
  shows "safe_tx L lk ws A (audit_prog t e obj k)"
  unfolding audit_prog_def
proof (rule tables.safe_sql)
  fix held :: "lock set" and g d x v'
  assume d: "A d" and s: "sql_insert_audit (Some t) e (JObj obj) g (apply_writes ws d) = Inr (x, v')"
  obtain au where au: "aud_tenant au = Some t" "aud_event au = e"
      "v' = (apply_writes ws d)\<lparr>audits := audits (apply_writes ws d) @ [au]\<rparr>"
    using sql_insert_audit_ok [OF s] by blast
  show "\<exists>B us. stays (lk \<union> set []) B \<and> B d \<and>
      (\<forall>e. B e \<longrightarrow> apply_writes (writes_of (apply_writes ws d) v') (apply_writes ws e) = apply_writes us e) \<and>
      safe_tx L (lk \<union> set []) us B k"
    using A d k [OF au(1,2)] unfolding au(3)
    by (intro exI [of _ A] exI [of _ "ws @ [AddAudits [au]]"]) (simp add: writes_of_def)
qed

lemma safe_outbox:
  assumes A: "stays lk A" and ws: "\<And>d. A d \<Longrightarrow> outbox (apply_writes ws d) = outbox d"
    and k: "\<And>ob. out_kind ob = kind \<Longrightarrow> out_payload ob = JObj obj \<Longrightarrow> out_processed ob = None \<Longrightarrow>
      safe_tx L (insert (OutboxId (out_id ob)) lk) (ws @ [AddOutbox [ob]])
        (\<lambda>d. A d \<and> out_id ob \<notin> out_id ` set (outbox d)) k"
  shows "safe_tx L lk ws A (outbox_prog kind obj k)"
  unfolding outbox_prog_def
proof (rule tables.safe_sql)
  fix held :: "lock set" and g d oid v'
  assume d: "A d" and s: "map_sum id (map_prod (\<lambda>_. g_uuid g) id) (sql_insert_outbox kind (JObj obj) g (apply_writes ws d))
      = Inr (oid, v')"
  then obtain ob where ob: "out_kind ob = kind" "out_payload ob = JObj obj" "out_processed ob = None"
      "out_id ob \<notin> out_id ` set (outbox d)" "oid = out_id ob"
      "v' = (apply_writes ws d)\<lparr>outbox := outbox (apply_writes ws d) @ [ob]\<rparr>"
    using ws [OF d]
    by (intro that [of "\<lparr>out_id = g_uuid g, out_kind = kind, out_payload = JObj obj, out_created = g_now g,
        out_processed = None\<rparr>"]) (auto simp: sql_insert_outbox_def split: if_splits)
  have "stays (insert (OutboxId oid) lk) (\<lambda>d. A d \<and> out_id ob \<notin> out_id ` set (outbox d))"
    unfolding ob(5) by (intro stays_conj stays_absent) (auto intro: stays_more [OF A])
  then show "\<exists>B us. stays (lk \<union> set [OutboxId oid]) B \<and> B d \<and>
      (\<forall>e. B e \<longrightarrow> apply_writes (writes_of (apply_writes ws d) v') (apply_writes ws e) = apply_writes us e) \<and>
      safe_tx L (lk \<union> set [OutboxId oid]) us B k"
    using d k [OF ob(1-3)] ob(4,5) unfolding ob(6)
    by (intro exI [of _ "\<lambda>d. A d \<and> out_id ob \<notin> out_id ` set (outbox d)"] exI [of _ "ws @ [AddOutbox [ob]]"])
      (simp add: writes_of_def)
qed

text \<open>Rows that are added under the locks of their keys.\<close>

lemma leaves_added:
  assumes "payments d' = payments d @ ps" "refunds d' = refunds d @ rs" "ledger d' = ledger d @ evs"
      "outbox d' = outbox d @ obs" "tenants d' = tenants d"
    and "\<forall>p \<in> set ps. {PaymentId (pay_id p), PaymentKey (pay_idem p)} \<subseteq> lk \<and> pay_id p \<notin> pay_id ` set (payments d)"
    and "\<forall>r \<in> set rs. {RefundId (ref_id r), RefundKey (ref_idem r), PaymentRow (ref_payment r)} \<subseteq> lk \<and>
      ref_id r \<notin> ref_id ` set (refunds d)"
    and "\<forall>e \<in> set evs. LedgerKey (led_key e) \<in> lk"
    and "\<forall>x \<in> set obs. OutboxId (out_id x) \<in> lk \<and> out_id x \<notin> out_id ` set (outbox d)"
  shows "leaves_alone lk d d'"
  unfolding tables.leaves_def
proof (intro conjI allI impI)
  show "only_grows d d'" using assms(1,3,5) by (auto simp: only_grows_def)
next
  fix x
  assume "x \<notin> lk"
  then show "unchanged x d d'"
    by (cases x) (use assms in \<open>auto simp: filter_empty_conv\<close>)
qed

lemma leaves_refl [simp, intro]: "leaves_alone lk d d"
  by (rule leaves_added [of d d "[]" "[]" "[]" "[]"]) simp_all

lemma safe_nothing [simp, intro]: "safe_tx L lk [] A (Return x)"
  by (rule tables.safe_return) simp

lemma stays_event_added:
  assumes "\<forall>ev \<in> set evs. LedgerKey (led_key ev) \<in> lk"
  shows "stays lk (\<lambda>d. event_added t k e (ledger d) evs)"
  unfolding tables.stable_def
proof (intro allI impI)
  fix d d'
  assume ev: "event_added t k e (ledger d) evs" and r: "relies_on lk d d'"
  show "event_added t k e (ledger d') evs"
  proof (cases "k \<in> led_key ` set (ledger d)")
    case True
    then have "k \<in> led_key ` set (ledger d')" using r by (auto simp: tables.relies_def only_grows_def)
    then show ?thesis using ev True by (simp add: event_added_def)
  next
    case False
    then obtain x where x: "evs = [x]" "led_key x = k" using ev by (auto simp: event_added_def)
    then have "unchanged (LedgerKey k) d d'" using assms r by (auto simp: tables.relies_def)
    then show ?thesis using ev False by (simp add: event_added_def)
  qed
qed

text \<open>The three records every acceptance ends with.\<close>

lemma safe_recorded:
  assumes A: "stays lk A"
    and ws: "\<And>d. A d \<Longrightarrow> ledger (apply_writes ws d) = ledger d" "\<And>d. A d \<Longrightarrow> outbox (apply_writes ws d) = outbox d"
    and commit: "\<And>evs au ob d. A d \<Longrightarrow> sound_tables L d \<Longrightarrow> event_added t (i, dedupe) e (ledger d) evs \<Longrightarrow>
      \<forall>ev \<in> set evs. led_payload ev = JObj obj \<Longrightarrow> aud_tenant au = Some t \<Longrightarrow> aud_event au = ae \<Longrightarrow>
      out_kind ob = kind \<Longrightarrow> out_payload ob = JObj oobj \<Longrightarrow> out_processed ob = None \<Longrightarrow>
      out_id ob \<notin> out_id ` set (outbox d) \<Longrightarrow>
      db_run L d (apply_writes (ws @ [AddLedger evs, AddAudits [au], AddOutbox [ob]]) d) \<and>
      leaves_alone (insert (OutboxId (out_id ob)) (lk \<union> set (map (\<lambda>ev. LedgerKey (led_key ev)) evs))) d
        (apply_writes (ws @ [AddLedger evs, AddAudits [au], AddOutbox [ob]]) d)"
  shows "safe_tx L lk ws A (append_prog t i dedupe e obj (audit_prog t ae aobj (outbox_prog kind oobj (Return x))))"
proof (intro safe_append [OF A ws(1)] safe_audit safe_outbox tables.safe_return, goal_cases)
  case (2 evs)
  show ?case by (intro stays_conj stays_more [OF A] stays_event_added) auto
next
  case (3 evs au)
  show ?case by (intro stays_conj stays_more [OF A] stays_event_added) auto
next
  case (4 evs au d)
  then show ?case using ws(2) by simp
next
  case (5 evs au ob d)
  then show ?case using commit [of d evs au ob] by simp
qed

section \<open>Creating a payment\<close>

lemma payment_committed:
  fixes row :: payment
  assumes row: "pay_idem row = (t, scope_payment_create, k)" "pay_amount row = amt" "Some (pay_currency row) = pg_char3 L cur"
      "pay_hash row = fp" "pay_status row = ''pending''" "0 < sint amt"
    and cur: "cur = to_upper (l_upper L) (trim_space c)" and fp: "fp = request_fingerprint L amt cur"
    and d: "t \<in> ten_id ` set (tenants d)" "pay_idem row \<notin> pay_idem ` set (payments d)"
      "pay_id row \<notin> pay_id ` set (payments d)" "sound_tables L d"
    and evs: "event_added t (pay_id row, ledger_payment_accepted) ledger_payment_accepted (ledger d) evs"
      "\<forall>ev \<in> set evs. led_payload ev = JObj [(''amount_cents'', JNum (sint amt)), (''currency'', JStr cur)]"
    and au: "aud_tenant au = Some t" "aud_event au = ''payment_created''"
    and ob: "out_kind ob = kind_payment_settlement" "out_processed ob = None" "out_id ob \<notin> out_id ` set (outbox d)"
      "out_payload ob = JObj [(''payment_id'', JStr (l_uuid_string L (pay_id row)))]"
  shows "accepted L t k amt c row d (d\<lparr>payments := payments d @ [row], ledger := ledger d @ evs,
    audits := audits d @ [au], outbox := outbox d @ [ob]\<rparr>)"
proof -
  have "(pay_id row, ledger_payment_accepted) \<notin> led_key ` set (ledger d)"
    using d(3) consistentD(2) [of L d] d(4) by (fastforce simp: sound_tables_def event_ok_def)
  then obtain ev where ev: "evs = [ev]" "led_key ev = (pay_id row, ledger_payment_accepted)" "led_tenant ev = t"
      "led_event ev = ledger_payment_accepted"
    using evs(1) by (auto simp: event_added_def)
  show ?thesis
    unfolding accepted_def Let_def cur [symmetric] fp [symmetric]
    using assms(1-6) d ev evs(2) au ob fp cur
    by (intro conjI exI [of _ ev] exI [of _ au] exI [of _ ob]) simp_all
qed

lemma safe_payment:
  fixes t :: uuid
  assumes cur: "cur = to_upper (l_upper L) (trim_space c)" and fp: "fp = request_fingerprint L amt cur"
  shows "safe_tx L {} [] (\<lambda>_. True) (payment_prog L t k amt cur fp)"
  unfolding payment_prog_def
proof (rule tables.safe_sql)
  fix held :: "lock set" and g d x v'
  assume d: "sound_tables L d"
    and s: "sql_insert_payment L t amt cur scope_payment_create k fp g (apply_writes [] d) = Inr (x, v')"
  show "\<exists>B us. stays ({} \<union> set (case x of None \<Rightarrow> [] | Some row \<Rightarrow> [PaymentKey (pay_idem row), PaymentId (pay_id row)])) B \<and> B d \<and>
      (\<forall>e. B e \<longrightarrow> apply_writes (writes_of (apply_writes [] d) v') (apply_writes [] e) = apply_writes us e) \<and>
      safe_tx L ({} \<union> set (case x of None \<Rightarrow> [] | Some row \<Rightarrow> [PaymentKey (pay_idem row), PaymentId (pay_id row)])) us B
       (case x of
          None \<Rightarrow>
            sql_query (\<lambda>_. []) (sql_select_payment_by_key t scope_payment_create k) (\<lambda>found.
            case found of
              None \<Rightarrow> Throw ErrNoRows
            | Some row \<Rightarrow>
                if pay_hash row \<noteq> fp then Throw ErrPaymentIdempotencyMismatch
                else Return (created_payment t amt cur k (pay_hash row) row, False))
        | Some row \<Rightarrow>
            append_prog t (pay_id row) ledger_payment_accepted ledger_payment_accepted
              [(''amount_cents'', JNum (sint amt)), (''currency'', JStr cur)]
            (audit_prog t ''payment_created''
              [(''payment_id'', JStr (l_uuid_string L (pay_id row))), (''amount_cents'', JNum (sint amt)),
               (''currency'', JStr cur)]
            (outbox_prog kind_payment_settlement [(''payment_id'', JStr (l_uuid_string L (pay_id row)))]
            (Return (created_payment t amt cur k fp row, True)))))"
  proof (cases x)
    case None
    then have "v' = d" using s sql_insert_payment_None by simp
    then show ?thesis
      unfolding None option.case
      by (intro exI [of _ "\<lambda>_. True"] exI [of _ "[]"])
        (auto simp: writes_of_def split: option.splits intro!: tables.safe_query tables.safe_throw)
  next
    case (Some row)
    let ?lk = "{PaymentKey (pay_idem row), PaymentId (pay_id row)}"
    let ?B = "\<lambda>d. t \<in> ten_id ` set (tenants d) \<and> pay_idem row \<notin> pay_idem ` set (payments d) \<and>
      pay_id row \<notin> pay_id ` set (payments d)"
    note row = sql_insert_payment_Some [OF s [unfolded Some]]
    have B: "stays lk ?B" if "?lk \<subseteq> lk" for lk
      using that by (intro stays_conj stays_grow stays_absent) auto
    have "safe_tx L ?lk [AddPayments [row]] ?B
        (append_prog t (pay_id row) ledger_payment_accepted ledger_payment_accepted
              [(''amount_cents'', JNum (sint amt)), (''currency'', JStr cur)]
            (audit_prog t ''payment_created''
              [(''payment_id'', JStr (l_uuid_string L (pay_id row))), (''amount_cents'', JNum (sint amt)),
               (''currency'', JStr cur)]
            (outbox_prog kind_payment_settlement [(''payment_id'', JStr (l_uuid_string L (pay_id row)))]
            (Return (created_payment t amt cur k fp row, True)))))"
    proof (rule safe_recorded [OF B], goal_cases)
      case (4 evs au ob d)
      then have "accepted L t k amt c row d (d\<lparr>payments := payments d @ [row], ledger := ledger d @ evs,
          audits := audits d @ [au], outbox := outbox d @ [ob]\<rparr>)"
        using row by (intro payment_committed [OF _ _ _ _ _ _ cur fp]) auto
      then have "db_run L d (d\<lparr>payments := payments d @ [row], ledger := ledger d @ evs,
          audits := audits d @ [au], outbox := outbox d @ [ob]\<rparr>)"
        by (intro step_run payment_accepted)
      moreover have "leaves_alone (insert (OutboxId (out_id ob)) (?lk \<union> set (map (\<lambda>ev. LedgerKey (led_key ev)) evs))) d
          (d\<lparr>payments := payments d @ [row], ledger := ledger d @ evs, audits := audits d @ [au], outbox := outbox d @ [ob]\<rparr>)"
        using 4 by (intro leaves_added [of _ _ "[row]" "[]" evs "[ob]"]) auto
      ultimately show ?case by simp
    qed simp_all
    then show ?thesis
      using B [of ?lk] row unfolding Some option.case
      by (intro exI [of _ ?B] exI [of _ "[AddPayments [row]]"]) (simp add: writes_of_def)
  qed
qed

section \<open>Creating a refund\<close>

lemma find_filter: "find P xs = (case filter P xs of [] \<Rightarrow> None | x # ys \<Rightarrow> Some x)"
  by (induction xs) auto

lemma reserved_sum_filter:
  assumes "filter (\<lambda>r. ref_payment r = i) (refunds d') = filter (\<lambda>r. ref_payment r = i) (refunds d)"
  shows "reserved_sum i d' = reserved_sum i d"
proof -
  have "filter (counts_for i) rs = filter (\<lambda>r. ref_status r \<in> {''pending'', ''succeeded''}) (filter (\<lambda>r. ref_payment r = i) rs)" for rs
    by (auto simp: counts_for_def intro: filter_cong)
  then show ?thesis using assms unfolding reserved_sum_def by (simp only:)
qed

definition payment_locked :: "uuid \<Rightarrow> db \<Rightarrow> db \<Rightarrow> bool" where
  "payment_locked i d0 d \<longleftrightarrow> filter (\<lambda>p. pay_id p = i) (payments d) = filter (\<lambda>p. pay_id p = i) (payments d0) \<and>
     filter (\<lambda>r. ref_payment r = i) (refunds d) = filter (\<lambda>r. ref_payment r = i) (refunds d0)"

lemma payment_locked_refl [simp]: "payment_locked i d d"
  by (simp add: payment_locked_def)

lemma payment_locked_find:
  "payment_locked i d0 d \<Longrightarrow> find (\<lambda>p. pay_id p = i) (payments d) = find (\<lambda>p. pay_id p = i) (payments d0)"
  by (simp add: payment_locked_def find_filter)

lemma payment_locked_allowed: "payment_locked i d0 d \<Longrightarrow> refund_allowed t i amt p d = refund_allowed t i amt p d0"
  using reserved_sum_filter [of i d d0] by (simp add: refund_allowed_def payment_locked_find) (simp add: payment_locked_def)

lemma stays_payment_locked:
  assumes "PaymentRow i \<in> lk" and "find (\<lambda>p. pay_id p = i) (payments d0) = Some p"
  shows "stays lk (payment_locked i d0)"
proof -
  have "filter (\<lambda>p. pay_id p = i) (payments d0) \<noteq> []" using assms(2) by (auto simp: find_filter split: list.splits)
  then show ?thesis unfolding payment_locked_def [abs_def] using assms(1) by (intro stays_payment)
qed

lemma refund_committed:
  assumes allowed: "refund_allowed t pid amt p d"
    and row: "ref_idem row = (t, scope_refund_create, k)" "ref_payment row = pid" "ref_amount row = amt"
      "Some (ref_currency row) = pg_char3 L (to_upper (l_upper L) (trim_space (pay_currency p)))"
      "ref_hash row = refund_fingerprint L pid amt" "ref_status row = ''pending''"
    and d: "ref_idem row \<notin> ref_idem ` set (refunds d)" "ref_id row \<notin> ref_id ` set (refunds d)"
    and evs: "event_added t (pid, refund_dedupe L (ref_id row) '':requested'') ledger_refund_requested (ledger d) evs"
    and au: "aud_tenant au = Some t" "aud_event au = ''refund_created''"
    and ob: "out_kind ob = kind_refund_settlement" "out_processed ob = None" "out_id ob \<notin> out_id ` set (outbox d)"
      "out_payload ob = JObj [(''refund_id'', JStr (l_uuid_string L (ref_id row)))]"
  shows "refund_accepted L t pid k amt row d (d\<lparr>refunds := refunds d @ [row], ledger := ledger d @ evs,
    audits := audits d @ [au], outbox := outbox d @ [ob]\<rparr>)"
  unfolding refund_accepted_def
  using assms by (intro conjI exI [of _ p] exI [of _ evs] exI [of _ au] exI [of _ ob]) simp_all

lemma safe_refund_insert:
  fixes t :: uuid
  assumes found: "find (\<lambda>p. pay_id p = pid) (payments d0) = Some p" and allowed: "refund_allowed t pid amt p d0"
    and cur: "cur = to_upper (l_upper L) (trim_space (pay_currency p))" and fp: "fp = refund_fingerprint L pid amt"
  shows "safe_tx L {PaymentRow pid} [] (payment_locked pid d0)
    (sql (\<lambda>ins. case ins of None \<Rightarrow> [] | Some row \<Rightarrow> [RefundKey (ref_idem row), RefundId (ref_id row)])
       (sql_insert_refund L t pid amt cur scope_refund_create k fp) (\<lambda>ins.
     case ins of
       None \<Rightarrow>
         sql_query (\<lambda>_. []) (sql_select_refund_by_key t scope_refund_create k) (\<lambda>old.
         case old of
           None \<Rightarrow> Throw ErrNoRows
         | Some row \<Rightarrow>
             if ref_hash row \<noteq> fp then Throw ErrRefundIdempotencyMismatch
             else Return (created_refund t pid amt cur k (ref_hash row) row, False))
     | Some row \<Rightarrow>
         append_prog t pid (refund_dedupe L (ref_id row) '':requested'') ledger_refund_requested
           [(''refund_id'', JStr (l_uuid_string L (ref_id row))), (''amount_cents'', JNum (sint amt)),
            (''currency'', JStr cur)]
         (audit_prog t ''refund_created''
           [(''refund_id'', JStr (l_uuid_string L (ref_id row))), (''payment_id'', JStr (l_uuid_string L pid)),
            (''amount_cents'', JNum (sint amt))]
         (outbox_prog kind_refund_settlement [(''refund_id'', JStr (l_uuid_string L (ref_id row)))]
         (Return (created_refund t pid amt cur k fp row, True))))))"
    (is "safe_tx L _ _ _ (sql ?lks ?st ?k)")
proof (rule tables.safe_sql)
  fix held :: "lock set" and g d x v'
  assume d: "payment_locked pid d0 d" and s: "?st g (apply_writes [] d) = Inr (x, v')"
  show "\<exists>B us. stays ({PaymentRow pid} \<union> set (?lks x)) B \<and> B d \<and>
      (\<forall>e. B e \<longrightarrow> apply_writes (writes_of (apply_writes [] d) v') (apply_writes [] e) = apply_writes us e) \<and>
      safe_tx L ({PaymentRow pid} \<union> set (?lks x)) us B (?k x)"
  proof (cases x)
    case None
    then have "v' = d" using s sql_insert_refund_None by simp
    then show ?thesis
      unfolding None option.case
      by (intro exI [of _ "\<lambda>_. True"] exI [of _ "[]"])
        (auto simp: writes_of_def split: option.splits intro!: tables.safe_query tables.safe_throw)
  next
    case (Some row)
    let ?lk = "{PaymentRow pid, RefundKey (ref_idem row), RefundId (ref_id row)}"
    let ?B = "\<lambda>d. payment_locked pid d0 d \<and> ref_idem row \<notin> ref_idem ` set (refunds d) \<and> ref_id row \<notin> ref_id ` set (refunds d)"
    note row = sql_insert_refund_Some [OF s [unfolded Some]]
    have B: "stays lk ?B" if "?lk \<subseteq> lk" for lk
      using that by (intro stays_conj stays_absent stays_payment_locked [OF _ found]) auto
    have "safe_tx L ?lk [AddRefunds [row]] ?B (?k (Some row))"
      unfolding option.case
    proof (rule safe_recorded [OF B], goal_cases)
      case (4 evs au ob d)
      then have "refund_accepted L t pid k amt row d (d\<lparr>refunds := refunds d @ [row], ledger := ledger d @ evs,
          audits := audits d @ [au], outbox := outbox d @ [ob]\<rparr>)"
        using row allowed payment_locked_allowed [of pid d0 d] unfolding cur fp by (intro refund_committed [of _ _ _ p]) auto
      then have "db_run L d (d\<lparr>refunds := refunds d @ [row], ledger := ledger d @ evs,
          audits := audits d @ [au], outbox := outbox d @ [ob]\<rparr>)"
        by (intro step_run refund_requested)
      moreover have "leaves_alone (insert (OutboxId (out_id ob)) (?lk \<union> set (map (\<lambda>ev. LedgerKey (led_key ev)) evs))) d
          (d\<lparr>refunds := refunds d @ [row], ledger := ledger d @ evs, audits := audits d @ [au], outbox := outbox d @ [ob]\<rparr>)"
        using 4 row by (intro leaves_added [of _ _ "[]" "[row]" evs "[ob]"]) auto
      ultimately show ?case by simp
    qed simp_all
    moreover have "{PaymentRow pid} \<union> set (?lks (Some row)) = ?lk" by auto
    ultimately show ?thesis
      using B [of ?lk, OF subset_refl] sql_insert_refund_Some [OF s [unfolded Some]] d unfolding Some
      by (intro exI [of _ ?B] exI [of _ "[AddRefunds [row]]"]) (simp only:, simp add: writes_of_def)
  qed
qed

lemma safe_ifI:
  "(C \<Longrightarrow> safe_tx L lk ws A p) \<Longrightarrow> (\<not> C \<Longrightarrow> safe_tx L lk ws A q) \<Longrightarrow> safe_tx L lk ws A (if C then p else q)"
  by simp

lemma safe_reserved:
  assumes "stays {PaymentRow pid} (payment_locked pid d0)"
    and "\<And>total. scan_int64 (reserved_sum pid d0) = total \<Longrightarrow> safe_tx L {PaymentRow pid} [] (payment_locked pid d0) (k total)"
  shows "safe_tx L {PaymentRow pid} [] (payment_locked pid d0) (sql_query (\<lambda>_. []) (\<lambda>d. scan_int64 (reserved_sum pid d)) k)"
proof (rule tables.safe_query)
  fix d
  assume "payment_locked pid d0 d"
  then show "\<exists>B. stays ({PaymentRow pid} \<union> set []) B \<and> B d \<and>
      safe_tx L ({PaymentRow pid} \<union> set []) [] B (k (scan_int64 (reserved_sum pid (apply_writes [] d))))"
    using assms reserved_sum_filter [of pid d d0] by (intro exI [of _ "payment_locked pid d0"]) (simp add: payment_locked_def)
qed

lemma safe_refund: "safe_tx L {} [] (\<lambda>_. True) (refund_prog L t pid k amount)"
  unfolding refund_prog_def Let_def
proof (rule tables.safe_query, goal_cases)
  case (1 d)
  show ?case
  proof (cases "find (\<lambda>p. pay_id p = pid) (payments d)")
    case None
    then show ?thesis by (intro exI [of _ "\<lambda>_. True"]) (auto intro: tables.safe_throw)
  next
    case (Some p)
    have locked: "stays {PaymentRow pid} (payment_locked pid d)"
      by (rule stays_payment_locked [OF _ Some]) simp
    show ?thesis
      unfolding apply_writes_simps Some option.case list.set Un_empty_left
    proof (intro exI [of _ "payment_locked pid d"] conjI, goal_cases)
      case 3
      show ?case
      proof (intro safe_ifI tables.safe_throw safe_reserved [OF locked], goal_cases)
        case (1 total)
        then show ?case
          by (cases total) (auto intro!: tables.safe_throw safe_refund_insert [OF Some] simp: refund_allowed_def Some)
      qed
    qed (simp_all add: locked)
  qed
qed

end
