(* ===== verification/Deadlock.thy ===== *)
theory Deadlock
  imports Locking
begin

text \<open>
  No deadlock: the five transactions take their locks in one order (\<open>rank\<close>), so among the open ones
  there is always one that need not wait, whatever the statements draw. With that the waiting in
  \<open>sys_step\<close> never brings the platform to a stop.
\<close>

section \<open>The order of the locks\<close>

text \<open>
  The row of the outbox first, then the refund and the payment, the new row's keys, the ledger's key,
  the new outbox row. Nobody who holds a lock asks for one of the same or a lower rank.
\<close>

fun rank :: "lock \<Rightarrow> nat" where
  "rank (OutboxRow i) = 0"
| "rank (RefundRow i) = 1"
| "rank (PaymentRow i) = 2"
| "rank (PaymentKey k) = 3"
| "rank (PaymentId i) = 4"
| "rank (RefundKey k) = 3"
| "rank (RefundId i) = 4"
| "rank (LedgerKey k) = 5"
| "rank (OutboxId i) = 6"

text \<open>\<open>ordered n p\<close>: \<open>p\<close> asks for locks from rank \<open>n\<close> on, always above those it has asked for.\<close>

inductive ordered :: "nat \<Rightarrow> 'a prog \<Rightarrow> bool" where
  ordered_return: "ordered n (Return x)"
| ordered_done: "ordered n (Done x)"
| ordered_throw: "ordered n (Throw e)"
| ordered_stmt: "(\<And>held g v l ws. f held g v = Inr (l, ws) \<Longrightarrow>
      \<exists>m \<ge> n. (\<forall>x \<in> set l. n \<le> rank x \<and> rank x < m) \<and> ordered m (k held g v)) \<Longrightarrow> ordered n (Stmt f k)"

declare ordered_return [intro!, simp] ordered_done [intro!, simp] ordered_throw [intro!, simp]

lemma ordered_stmtD:
  "ordered n (Stmt f k) \<Longrightarrow> f held g v = Inr (l, ws) \<Longrightarrow>
   \<exists>m \<ge> n. (\<forall>x \<in> set l. n \<le> rank x \<and> rank x < m) \<and> ordered m (k held g v)"
  by (auto elim: ordered.cases)

lemma ordered_less: "ordered n p \<Longrightarrow> m \<le> n \<Longrightarrow> ordered m p"
proof (induction arbitrary: m rule: ordered.induct)
  case (ordered_stmt f n k)
  show ?case
  proof (rule ordered.ordered_stmt)
    fix held g v l ws
    assume "f held g v = Inr (l, ws)"
    then obtain m' where "n \<le> m'" "\<forall>x \<in> set l. n \<le> rank x \<and> rank x < m'" "ordered m' (k held g v)"
      using ordered_stmt.IH by blast
    then show "\<exists>m' \<ge> m. (\<forall>x \<in> set l. m \<le> rank x \<and> rank x < m') \<and> ordered m' (k held g v)"
      using ordered_stmt.prems by (meson order_trans)
  qed
qed auto

lemma ordered_forget: "ordered n p \<Longrightarrow> ordered n (forget p)"
proof (induction rule: ordered.induct)
  case (ordered_stmt f n k)
  then show ?case
    unfolding forget_def prog.map o_apply by (intro ordered.ordered_stmt) (fastforce simp: forget_def)
qed (auto simp: forget_def)

lemma ordered_sql_unlocked:
  assumes "n \<le> m" and "\<And>x l. l \<in> set (lks x) \<Longrightarrow> n \<le> rank l \<and> rank l < m" and "\<And>x. ordered m (k x)"
  shows "ordered n (sql_unlocked lks st k)"
  unfolding sql_unlocked_def by (rule ordered_stmt) (use assms in \<open>auto split: sum.splits\<close>)

lemmas ordered_sql = ordered_sql_unlocked [where st = "\<lambda>_. st" for st, folded sql_def]

lemmas ordered_query = ordered_sql [where st = "\<lambda>_ d. Inr (f d, d)" for f, folded sql_query_def]

lemma ordered_no_lock:
  assumes "\<And>x. ordered n (k x)"
  shows "ordered n (sql (\<lambda>_. []) st k)" "ordered n (sql_query (\<lambda>_. []) f k)"
  using assms by (auto intro: ordered_sql [where m = n] ordered_query [where m = n])

section \<open>The transactions keep to it\<close>

lemma ordered_free: "ordered n k \<Longrightarrow> ordered n (audit_prog t e obj k)"
  unfolding audit_prog_def by (rule ordered_no_lock)

lemma rank_ledger: "l \<in> set (ledger_locks x) \<Longrightarrow> rank l = 5"
  by (cases x) auto

lemma ordered_append: "n \<le> 5 \<Longrightarrow> ordered 6 k \<Longrightarrow> ordered n (append_prog t i dedupe e obj k)"
  unfolding append_prog_def by (rule ordered_sql [where m = 6]) (auto dest!: rank_ledger)

lemma ordered_outbox: "n \<le> 6 \<Longrightarrow> ordered 7 k \<Longrightarrow> ordered n (outbox_prog kind obj k)"
  unfolding outbox_prog_def by (rule ordered_sql [where m = 7]) auto

lemma ordered_recorded:
  "n \<le> 5 \<Longrightarrow> ordered n (append_prog t i dedupe e obj (audit_prog t ae aobj (outbox_prog kind oobj (Return x))))"
  by (intro ordered_append ordered_free ordered_outbox) simp_all

lemma ordered_ifI: "(C \<Longrightarrow> ordered n p) \<Longrightarrow> (\<not> C \<Longrightarrow> ordered n q) \<Longrightarrow> ordered n (if C then p else q)"
  by simp

lemma ordered_optionI:
  "ordered n p \<Longrightarrow> (\<And>x. ordered n (q x)) \<Longrightarrow> ordered n (case opt of None \<Rightarrow> p | Some x \<Rightarrow> q x)"
  by (cases opt) simp_all

lemmas ordered_intros = ordered_throw ordered_return ordered_done ordered_ifI ordered_optionI ordered_recorded ordered_no_lock

lemma ordered_payment: "ordered 0 (payment_prog L t k amt cur fp)"
  unfolding payment_prog_def
  by (rule ordered_sql [where m = 5]) (auto split: option.splits intro!: ordered_intros)

lemma ordered_refund: "ordered 0 (refund_prog L t pid k amount)"
  unfolding refund_prog_def Let_def
proof (rule ordered_query [where m = 3], goal_cases)
  case 3
  have ins: "ordered 3 (sql (\<lambda>ins. case ins of None \<Rightarrow> [] | Some row \<Rightarrow> [RefundKey (ref_idem row), RefundId (ref_id row)]) st k)"
    if "\<And>x. ordered 5 (k x)" for st and k :: "refund option \<Rightarrow> (refund \<times> bool) prog"
    by (rule ordered_sql [where m = 5]) (auto split: option.splits intro!: that)
  show ?case by (intro ordered_intros ins order_refl)
qed (auto split: option.splits)

lemma ordered_payment_settle:
  assumes "n \<le> 2" and "\<And>m. m \<le> 6 \<Longrightarrow> ordered m k"
  shows "ordered n (payment_settle_prog pid k)"
  unfolding payment_settle_prog_def
  by (rule ordered_query [where m = 3])
    (use assms in \<open>auto split: option.splits intro!: ordered_append ordered_no_lock\<close>)

lemma ordered_refund_settle:
  assumes "n \<le> 1" and "\<And>m. m \<le> 6 \<Longrightarrow> ordered m k"
  shows "ordered n (refund_settle_prog L rid k)"
  unfolding refund_settle_prog_def
  by (rule ordered_query [where m = 3])
    (use assms in \<open>auto split: option.splits intro!: ordered_append ordered_no_lock\<close>)

lemma ordered_process_outbox: "ordered 0 (process_outbox_prog L)"
  unfolding process_outbox_prog_def settle_row_prog_def
  by (rule ordered_sql_unlocked [where m = 1])
    (auto split: option.splits intro!: ordered_payment_settle ordered_refund_settle ordered_intros)

lemma begins_ordered: "begins L p \<Longrightarrow> ordered 0 p"
proof (induction rule: begins.induct)
  case (begin_payment_settlement pid)
  show ?case by (rule ordered_forget, rule ordered_payment_settle) simp_all
next
  case (begin_refund_settlement rid)
  show ?case by (rule ordered_forget, rule ordered_refund_settle) simp_all
qed (intro ordered_forget ordered_payment ordered_refund ordered_process_outbox)+

section \<open>Somebody can always move\<close>

text \<open>
  Session \<open>i\<close> has to wait: its next statement, drawing on \<open>g\<close>, asks for a lock that another
  session holds. One that does not wait executes a statement, fails, commits or has ended.
\<close>

definition waits :: "nat \<Rightarrow> gen \<Rightarrow> system \<Rightarrow> bool" where
  "waits i g s \<longleftrightarrow> (\<exists>t f k l ws. sys_ses s i = Some t \<and> ses_prog t = Stmt f k \<and>
     f (others_hold i s) g (view (sys_db s) t) = Inr (l, ws) \<and> set l \<inter> others_hold i s \<noteq> {})"

definition ordered_session :: "session \<Rightarrow> bool" where
  "ordered_session t \<longleftrightarrow> (\<exists>n. (\<forall>x \<in> ses_locks t. rank x < n) \<and> ordered n (ses_prog t))"

definition ordered_system :: "system \<Rightarrow> bool" where
  "ordered_system s \<longleftrightarrow> finite {i. sys_ses s i \<noteq> None} \<and> (\<forall>i t. sys_ses s i = Some t \<longrightarrow> ordered_session t)"

lemma ordered_system_set:
  assumes "ordered_system s" and "\<And>u. t = Some u \<Longrightarrow> ordered_session u" and "sys_ses s' = sys_ses s"
  shows "ordered_system (set_session i t s')"
  unfolding ordered_system_def set_session_simps assms(3)
proof (intro conjI allI impI)
  have "{j. ((sys_ses s)(i := t)) j \<noteq> None} \<subseteq> insert i {j. sys_ses s j \<noteq> None}" by auto
  moreover have "finite (insert i {j. sys_ses s j \<noteq> None})" using assms(1) by (simp add: ordered_system_def)
  ultimately show "finite {j. ((sys_ses s)(i := t)) j \<noteq> None}" by (rule finite_subset)
next
  fix j u
  assume "((sys_ses s)(i := t)) j = Some u"
  then show "ordered_session u" using assms(1,2) by (simp add: ordered_system_def split: if_splits)
qed

lemma ordered_step:
  assumes "sys_step starts env s s'" and "ordered_system s" and "\<And>p. starts p \<Longrightarrow> ordered 0 p"
  shows "ordered_system s'"
  using assms(1)
proof cases
  case (starting i p)
  then show ?thesis
    using assms(2) assms(3) [OF starting(3)]
    unfolding starting(1)
    by (intro ordered_system_set) (auto intro!: exI [of _ 0] simp: ordered_session_def fresh_session_def)
next
  case (statement i t f k g l ws)
  obtain n where n: "\<forall>x \<in> ses_locks t. rank x < n" "ordered n (Stmt f k)"
    using assms(2) statement(2,3) unfolding ordered_system_def ordered_session_def by metis
  obtain m where "n \<le> m" "\<forall>x \<in> set l. n \<le> rank x \<and> rank x < m" "ordered m (k (others_hold i s) g (view (sys_db s) t))"
    using ordered_stmtD [OF n(2) statement(4)] by blast
  then have "ordered_session \<lparr>ses_prog = k (others_hold i s) g (view (sys_db s) t),
      ses_writes = ses_writes t @ ws, ses_locks = ses_locks t \<union> set l\<rparr>"
    using n(1) unfolding ordered_session_def by (intro exI [of _ m]) auto
  then show ?thesis unfolding statement(1) by (intro ordered_system_set [OF assms(2)]) auto
next
  case elsewhere
  then show ?thesis using assms(2) by (simp add: ordered_system_def)
qed (auto intro: ordered_system_set [OF assms(2)])

lemma ordered_run:
  assumes "sys_run starts env (idle d) s" and "\<And>p. starts p \<Longrightarrow> ordered 0 p"
  shows "ordered_system s"
  using assms(1)
proof (induction rule: rtranclp_induct)
  case base
  show ?case by (simp add: ordered_system_def idle_def)
next
  case (step s s')
  then show ?case by (blast intro: ordered_step assms(2))
qed

text \<open>Whoever waits, waits for somebody who has reached a higher rank.\<close>

lemma waits_for:
  assumes "ordered_system s" and "waits i g s"
  obtains x j u where "x \<in> others_hold i s" "sys_ses s j = Some u" "x \<in> ses_locks u"
    "\<And>t y. sys_ses s i = Some t \<Longrightarrow> y \<in> ses_locks t \<Longrightarrow> rank y < rank x"
proof -
  obtain t f k l ws x where w: "sys_ses s i = Some t" "ses_prog t = Stmt f k"
      "f (others_hold i s) g (view (sys_db s) t) = Inr (l, ws)" "x \<in> set l" "x \<in> others_hold i s"
    using assms(2) unfolding waits_def by blast
  obtain n where n: "\<forall>x \<in> ses_locks t. rank x < n" "ordered n (Stmt f k)"
    using assms(1) w(1,2) unfolding ordered_system_def ordered_session_def by metis
  have "n \<le> rank x" using ordered_stmtD [OF n(2) w(3)] w(4) by blast
  moreover obtain j u where "sys_ses s j = Some u" "x \<in> ses_locks u"
    using w(5) unfolding others_hold_def by blast
  ultimately show ?thesis using that w(1,5) n(1) by fastforce
qed

lemma somebody_moves:
  assumes "ordered_system s" and "sys_ses s i = Some t"
  shows "\<exists>j u. sys_ses s j = Some u \<and> \<not> waits j (gs j) s"
proof (rule ccontr)
  assume "\<not> ?thesis"
  then have all: "waits j (gs j) s" if "sys_ses s j = Some u" for j u using that by blast
  have "\<exists>j u x. sys_ses s j = Some u \<and> x \<in> ses_locks u \<and> n \<le> rank x" for n
  proof (induction n)
    case 0
    obtain x j u where "sys_ses s j = Some u" "x \<in> ses_locks u" using waits_for [OF assms(1) all [OF assms(2)]] by metis
    then show ?case by blast
  next
    case (Suc n)
    then obtain j u x where j: "sys_ses s j = Some u" "x \<in> ses_locks u" "n \<le> rank x" by blast
    obtain y j' u' where "sys_ses s j' = Some u'" "y \<in> ses_locks u'" "rank x < rank y"
      using waits_for [OF assms(1) all [OF j(1)]] j(1,2) by metis
    then show ?case using j(3) by (meson Suc_leI le_less_trans)
  qed
  moreover have "rank x \<le> 6" for x by (cases x) simp_all
  ultimately show False by (metis Suc_n_not_le_n le_trans)
qed

end
