(* ===== verification/Concurrency.thy ===== *)
theory Concurrency
  imports Interleaving Deadlock
begin

text \<open>
  The rest of \<open>Interleaving\<close>: the settlements and the worker of the outbox are safe with the
  locks they take; with that the theorems on the platform with any number of transactions open at once.
\<close>

section \<open>Settlements\<close>

text \<open>Rows changed in place under their locks.\<close>

lemma filter_update_other:
  assumes "\<And>x. P x \<Longrightarrow> \<not> R x" and "\<And>x. R (f x) = R x"
  shows "filter R (update_where P f xs) = filter R xs"
  using assms by (induction xs) (auto simp: update_where_def)

lemma leaves_payment_changed:
  assumes "PaymentRow i \<in> lk" and "\<forall>e \<in> set evs. LedgerKey (led_key e) \<in> lk"
    and f: "\<And>p. pay_id (f p) = pay_id p" "\<And>p. pay_idem (f p) = pay_idem p"
  shows "leaves_alone lk d (d\<lparr>ledger := ledger d @ evs, payments := update_where (\<lambda>p. pay_id p = i \<and> Q p) f (payments d)\<rparr>)"
    (is "leaves_alone lk d ?d")
  unfolding tables.leaves_def
proof (intro conjI allI impI)
  note ids = ids_update_where [of pay_id f "\<lambda>p. pay_id p = i \<and> Q p" "payments d", OF f(1)]
    ids_update_where [of pay_idem f "\<lambda>p. pay_id p = i \<and> Q p" "payments d", OF f(2)]
  show "only_grows d ?d" by (auto simp: only_grows_def ids(1))
  fix x
  assume "x \<notin> lk"
  moreover have "filter (\<lambda>p. pay_id p = j) (update_where (\<lambda>p. pay_id p = i \<and> Q p) f (payments d)) =
      filter (\<lambda>p. pay_id p = j) (payments d)" if "PaymentRow j \<notin> lk" for j
    using that assms(1) by (intro filter_update_other) (auto simp: f)
  ultimately show "unchanged x d ?d"
    using assms(1,2) by (cases x) (auto simp: ids)
qed

lemma leaves_refund_changed:
  assumes "RefundRow i \<in> lk" and "\<forall>e \<in> set evs. LedgerKey (led_key e) \<in> lk"
    and pay: "\<And>r. r \<in> set (refunds d) \<Longrightarrow> ref_id r = i \<Longrightarrow> PaymentRow (ref_payment r) \<in> lk"
    and f: "\<And>r. ref_id (f r) = ref_id r" "\<And>r. ref_idem (f r) = ref_idem r" "\<And>r. ref_payment (f r) = ref_payment r"
  shows "leaves_alone lk d (d\<lparr>ledger := ledger d @ evs, refunds := update_where (\<lambda>r. ref_id r = i \<and> Q r) f (refunds d)\<rparr>)"
    (is "leaves_alone lk d ?d")
  unfolding tables.leaves_def
proof (intro conjI allI impI)
  let ?P = "\<lambda>r. ref_id r = i \<and> Q r"
  note ids = ids_update_where [of ref_id f ?P "refunds d", OF f(1)] ids_update_where [of ref_idem f ?P "refunds d", OF f(2)]
  show "only_grows d ?d" by (auto simp: only_grows_def)
  fix x
  assume x: "x \<notin> lk"
  have "filter (\<lambda>r. ref_id r = j) (update_where ?P f (refunds d)) = filter (\<lambda>r. ref_id r = j) (refunds d)" if "RefundRow j \<notin> lk" for j
    using that assms(1) by (intro filter_update_other) (auto simp: f)
  moreover have "filter (\<lambda>r. ref_payment r = j) (update_where ?P f (refunds d)) = filter (\<lambda>r. ref_payment r = j) (refunds d)"
    if "PaymentRow j \<notin> lk" for j
  proof -
    have "update_where ?P f (refunds d) = update_where (\<lambda>r. ?P r \<and> ref_payment r \<noteq> j) f (refunds d)"
      unfolding update_where_def using pay that by (auto intro!: map_cong)
    also have "filter (\<lambda>r. ref_payment r = j) \<dots> = filter (\<lambda>r. ref_payment r = j) (refunds d)"
      by (intro filter_update_other) (auto simp: f)
    finally show ?thesis .
  qed
  ultimately show "unchanged x d ?d"
    using assms(1,2) x by (cases x) (auto simp: ids)
qed

lemma leaves_marked:
  assumes "OutboxRow i \<in> lk"
  shows "leaves_alone lk d (mark_processed i t d)"
  unfolding tables.leaves_def
proof (intro conjI allI impI)
  let ?f = "\<lambda>x. x\<lparr>out_processed := Some t\<rparr>"
  show "only_grows d (mark_processed i t d)" by (simp add: only_grows_def mark_processed_def)
  fix x
  assume "x \<notin> lk"
  moreover have "filter (\<lambda>x. out_id x = j) (update_where (\<lambda>x. out_id x = i) ?f (outbox d)) = filter (\<lambda>x. out_id x = j) (outbox d)"
    if "OutboxRow j \<notin> lk" for j
    using that assms(1) by (intro filter_update_other) auto
  ultimately show "unchanged x d (mark_processed i t d)"
    using assms ids_update_where [of out_id ?f "\<lambda>x. out_id x = i" "outbox d"]
    by (cases x) (auto simp: mark_processed_def)
qed

text \<open>What a settlement hands on to the rest of its transaction.\<close>

definition payment_done :: "uuid \<Rightarrow> lock set \<Rightarrow> row_write list \<Rightarrow> db \<Rightarrow> bool" where
  "payment_done pid lk ws d \<longleftrightarrow> outbox (apply_writes ws d) = outbox d \<and> leaves_alone lk d (apply_writes ws d) \<and>
     (settled_once pid d (apply_writes ws d) \<or> payment_settled pid d \<and> apply_writes ws d = d)"

definition refund_done :: "lib \<Rightarrow> uuid \<Rightarrow> lock set \<Rightarrow> row_write list \<Rightarrow> db \<Rightarrow> bool" where
  "refund_done L rid lk ws d \<longleftrightarrow> outbox (apply_writes ws d) = outbox d \<and> leaves_alone lk d (apply_writes ws d) \<and>
     (refund_settled_once L rid d (apply_writes ws d) \<or> refund_settled rid d \<and> apply_writes ws d = d)"

lemma safe_payment_settle:
  assumes A: "stays lk A"
    and missing: "\<And>d. A d \<Longrightarrow> sound_tables L d \<Longrightarrow> pid \<notin> pay_id ` set (payments d) \<Longrightarrow> safe_tx L lk [] A k"
    and go: "\<And>lk' ws B. stays lk' B \<Longrightarrow> lk \<subseteq> lk' \<Longrightarrow> (\<And>d. B d \<Longrightarrow> A d) \<Longrightarrow>
      (\<And>d. B d \<Longrightarrow> sound_tables L d \<Longrightarrow> payment_done pid lk' ws d) \<Longrightarrow> safe_tx L lk' ws B k"
  shows "safe_tx L lk [] A (payment_settle_prog pid k)"
  unfolding payment_settle_prog_def
proof (rule tables.safe_query, goal_cases)
  case (1 d)
  show ?case
  proof (cases "find (\<lambda>p. pay_id p = pid) (payments d)")
    case None
    then have "safe_tx L lk [] A k" by (intro missing [OF 1]) (auto simp: find_None_in)
    then show ?thesis unfolding apply_writes_simps None option.map option.case using 1 A by (intro exI [of _ A]) simp
  next
    case (Some p)
    let ?lk = "lk \<union> {PaymentRow pid}"
    let ?B = "\<lambda>e. A e \<and> payment_locked pid d e"
    have B: "stays lk' ?B" if "?lk \<subseteq> lk'" for lk'
      using that by (intro stays_conj stays_more [OF A] stays_payment_locked [OF _ Some]) auto
    have find: "find (\<lambda>p. pay_id p = pid) (payments e) = Some p" if "payment_locked pid d e" for e
      using payment_locked_find [OF that] Some by simp
    show ?thesis
      unfolding apply_writes_simps Some option.map option.case prod.case list.set
    proof (intro exI [of _ ?B] conjI safe_ifI, goal_cases)
      case 1
      show ?case by (rule B [OF subset_refl])
    next
      case 4
      then show ?case
        by (intro go [OF B]) (auto simp: payment_done_def payment_settled_def find)
    next
      case 5
      show ?case
      proof (rule safe_append [OF B [OF subset_refl]], simp, rule tables.safe_sql)
        fix evs and held :: "lock set" and g e x v'
        let ?lk' = "?lk \<union> set (map (\<lambda>ev. LedgerKey (led_key ev)) evs)"
        let ?C = "\<lambda>e. (A e \<and> payment_locked pid d e) \<and>
          event_added (pay_tenant p) (pid, ledger_settlement_completed) ledger_settlement_completed (ledger e) evs"
        assume e: "?C e" and v': "sql_settle_payment pid g (apply_writes ([] @ [AddLedger evs]) e) = Inr (x, v')"
        let ?us = "[AddLedger evs] @ writes_of (apply_writes ([] @ [AddLedger evs]) e) v'"
        have C: "stays (?lk' \<union> set []) ?C"
          by (intro stays_conj [OF B stays_event_added]) auto
        have us: "apply_writes ?us e' = e'\<lparr>ledger := ledger e' @ evs,
            payments := update_where (\<lambda>p. pay_id p = pid \<and> pay_status p = ''pending'')
              (\<lambda>p. p\<lparr>pay_status := ''succeeded'', pay_updated := g_now g\<rparr>) (payments e')\<rparr>" if "?C e'" for e'
          using v' that e put_update [of pay_id pid "payments e'" "payments e"]
          by (auto simp: sql_settle_payment_def writes_of_def payment_locked_def)
        show "\<exists>B us. stays (?lk' \<union> set []) B \<and> B e \<and>
            (\<forall>e'. B e' \<longrightarrow> apply_writes (writes_of (apply_writes ([] @ [AddLedger evs]) e) v') (apply_writes ([] @ [AddLedger evs]) e') =
              apply_writes us e') \<and> safe_tx L (?lk' \<union> set []) us B k"
        proof (intro exI [of _ ?C] exI [of _ ?us] conjI, goal_cases)
          case 6
          show ?case
          proof (rule go [OF C], goal_cases)
            case (3 e')
            have "settled_once pid e' (apply_writes ?us e')"
              unfolding us [OF 3(1)] settled_once_def using 3(1) 5 find [of e'] by blast
            moreover have "leaves_alone (?lk' \<union> set []) e' (apply_writes ?us e')"
              unfolding us [OF 3(1)] by (rule leaves_payment_changed) (auto simp: pay_idem_def)
            ultimately show ?case using us [OF 3(1)] by (simp add: payment_done_def)
          qed auto
        qed (use C e in simp_all)
      qed
    qed (use 1 in simp_all)
  qed
qed

definition refund_locked :: "uuid \<Rightarrow> uuid \<Rightarrow> db \<Rightarrow> db \<Rightarrow> bool" where
  "refund_locked rid pid d0 d \<longleftrightarrow> payment_locked pid d0 d \<and>
     filter (\<lambda>r. ref_id r = rid) (refunds d) = filter (\<lambda>r. ref_id r = rid) (refunds d0)"

lemma refund_locked_joined:
  assumes "refund_locked rid (pay_id p) d0 d" and "sql_refund_with_payment rid d0 = Some (r, p)"
  shows "sql_refund_with_payment rid d = Some (r, p)"
proof -
  have "find (\<lambda>r. ref_id r = rid) (refunds d) = find (\<lambda>r. ref_id r = rid) (refunds d0)"
    using assms(1) by (simp add: refund_locked_def find_filter)
  moreover have "find (\<lambda>q. pay_id q = pay_id p) (payments d) = find (\<lambda>q. pay_id q = pay_id p) (payments d0)"
    using assms(1) by (simp add: refund_locked_def payment_locked_find)
  moreover have "pay_id p = ref_payment r" using refund_with_payment_rows [OF assms(2)] by simp
  ultimately show ?thesis using assms(2) by (auto simp: sql_refund_with_payment_def split: option.splits)
qed

lemma stays_refund_locked:
  assumes "sql_refund_with_payment rid d = Some (r, p)" and "{RefundRow rid, PaymentRow (pay_id p)} \<subseteq> lk"
  shows "stays lk (refund_locked rid (pay_id p) d)"
proof -
  have r: "filter (\<lambda>r. ref_id r = rid) (refunds d) \<noteq> []"
    using assms(1) by (auto simp: sql_refund_with_payment_def find_filter split: option.splits list.splits)
  have p: "find (\<lambda>q. pay_id q = pay_id p) (payments d) = Some p"
    using assms(1) refund_with_payment_rows [OF assms(1)] by (auto simp: sql_refund_with_payment_def split: option.splits)
  show ?thesis
    unfolding refund_locked_def [abs_def]
    using assms(2) r by (intro stays_conj stays_payment_locked [OF _ p] stays_refund) auto
qed

lemma sound_refund:
  assumes "sound_tables L d" and "r \<in> set (refunds d)" and "r' \<in> set (refunds d)" and "ref_id r = ref_id r'"
  shows "r = r'"
proof -
  have "unique_keys d" using assms(1) consistentD(1) by (auto simp: sound_tables_def)
  then show ?thesis
    using assms(2-4) by (auto simp: unique_keys_def distinct_map dest: inj_onD)
qed

lemma safe_refund_settle:
  assumes A: "stays lk A"
    and missing: "\<And>d. A d \<Longrightarrow> sound_tables L d \<Longrightarrow> sql_refund_with_payment rid d = None \<Longrightarrow> safe_tx L lk [] A k"
    and go: "\<And>lk' ws B. stays lk' B \<Longrightarrow> lk \<subseteq> lk' \<Longrightarrow> (\<And>d. B d \<Longrightarrow> A d) \<Longrightarrow>
      (\<And>d. B d \<Longrightarrow> sound_tables L d \<Longrightarrow> refund_done L rid lk' ws d) \<Longrightarrow> safe_tx L lk' ws B k"
  shows "safe_tx L lk [] A (refund_settle_prog L rid k)"
  unfolding refund_settle_prog_def
proof (rule tables.safe_query, goal_cases)
  case (1 d)
  show ?case
  proof (cases "sql_refund_with_payment rid d")
    case None
    then have "safe_tx L lk [] A k" by (rule missing [OF 1])
    then show ?thesis unfolding apply_writes_simps None option.case using 1 A by (intro exI [of _ A]) simp
  next
    case (Some rp)
    obtain r p where rp: "rp = (r, p)" by (cases rp)
    note Some' = Some [unfolded rp]
    let ?lk = "lk \<union> {RefundRow rid, PaymentRow (pay_id p)}"
    let ?B = "\<lambda>e. A e \<and> refund_locked rid (pay_id p) d e"
    have B: "stays lk' ?B" if "?lk \<subseteq> lk'" for lk'
      using that by (intro stays_conj stays_more [OF A] stays_refund_locked [OF Some']) auto
    have join: "sql_refund_with_payment rid e = Some (r, p)" if "refund_locked rid (pay_id p) d e" for e
      by (rule refund_locked_joined [OF that Some'])
    show ?thesis
      unfolding apply_writes_simps Some rp option.case prod.case list.set
    proof (intro exI [of _ ?B] conjI safe_ifI tables.safe_throw, goal_cases)
      case 1
      show ?case by (rule B [OF subset_refl])
    next
      case 4
      then show ?case
        by (intro go [OF B]) (auto simp: refund_done_def refund_settled_def join)
    next
      case 5
      show ?case
      proof (rule safe_append [OF B [OF subset_refl]], simp, rule tables.safe_sql)
        fix evs and held :: "lock set" and g e x v'
        let ?lk' = "?lk \<union> set (map (\<lambda>ev. LedgerKey (led_key ev)) evs)"
        let ?C = "\<lambda>e. (A e \<and> refund_locked rid (pay_id p) d e) \<and>
          event_added (ref_tenant r) (ref_payment r, refund_dedupe L rid '':succeeded'') ledger_refund_succeeded (ledger e) evs"
        assume e: "?C e" and v': "sql_settle_refund rid g (apply_writes ([] @ [AddLedger evs]) e) = Inr (x, v')"
        let ?us = "[AddLedger evs] @ writes_of (apply_writes ([] @ [AddLedger evs]) e) v'"
        have C: "stays (?lk' \<union> set []) ?C"
          by (intro stays_conj [OF B stays_event_added]) auto
        have us: "apply_writes ?us e' = e'\<lparr>ledger := ledger e' @ evs,
            refunds := update_where (\<lambda>r. ref_id r = rid \<and> ref_status r = ''pending'')
              (\<lambda>r. r\<lparr>ref_status := ''succeeded'', ref_updated := g_now g\<rparr>) (refunds e')\<rparr>" if "?C e'" for e'
          using v' that e put_update [of ref_id rid "refunds e'" "refunds e"]
          by (auto simp: sql_settle_refund_def writes_of_def refund_locked_def)
        show "\<exists>B us. stays (?lk' \<union> set []) B \<and> B e \<and>
            (\<forall>e'. B e' \<longrightarrow> apply_writes (writes_of (apply_writes ([] @ [AddLedger evs]) e) v') (apply_writes ([] @ [AddLedger evs]) e') =
              apply_writes us e') \<and> safe_tx L (?lk' \<union> set []) us B k"
        proof (intro exI [of _ ?C] exI [of _ ?us] conjI, goal_cases)
          case 6
          show ?case
          proof (rule go [OF C], goal_cases)
            case (3 e')
            note j = join [of e'] refund_with_payment_rows [of rid e' r p]
            have "refund_settled_once L rid e' (apply_writes ?us e')"
              unfolding us [OF 3(1)] refund_settled_once_def using 3(1) 5 j(1) by blast
            moreover have "leaves_alone (?lk' \<union> set []) e' (apply_writes ?us e')"
              unfolding us [OF 3(1)]
            proof (rule leaves_refund_changed, goal_cases)
              case (3 x)
              then show ?case using j sound_refund [OF \<open>sound_tables L e'\<close>, of x r] \<open>?C e'\<close> by auto
            qed (auto simp: ref_idem_def)
            ultimately show ?case using us [OF 3(1)] by (simp add: refund_done_def)
          qed auto
        qed (use C e in simp_all)
      qed
    qed (use 1 in \<open>simp_all add: refund_locked_def\<close>)
  qed
qed

lemma safe_payment_settlement: "safe_tx L {} [] (\<lambda>_. True) (payment_settle_prog pid (Return x))"
proof (rule safe_payment_settle)
  fix lk' ws B
  assume go: "\<And>d. B d \<Longrightarrow> sound_tables L d \<Longrightarrow> payment_done pid lk' ws d"
  show "safe_tx L lk' ws B (Return x)"
  proof (rule tables.safe_return)
    fix d
    assume "B d" "sound_tables L d"
    from go [OF this] show "db_run L d (apply_writes ws d) \<and> leaves_alone lk' d (apply_writes ws d)"
      by (auto simp: payment_done_def intro: step_run payment_settles)
  qed
qed auto

lemma safe_refund_settlement: "safe_tx L {} [] (\<lambda>_. True) (refund_settle_prog L rid (Return x))"
proof (rule safe_refund_settle)
  fix lk' ws B
  assume go: "\<And>d. B d \<Longrightarrow> sound_tables L d \<Longrightarrow> refund_done L rid lk' ws d"
  show "safe_tx L lk' ws B (Return x)"
  proof (rule tables.safe_return)
    fix d
    assume "B d" "sound_tables L d"
    from go [OF this] show "db_run L d (apply_writes ws d) \<and> leaves_alone lk' d (apply_writes ws d)"
      by (auto simp: refund_done_def intro: step_run refund_settles)
  qed
qed auto

section \<open>Serving the outbox\<close>

lemma next_unlocked_Some:
  assumes "sql_next_unlocked held d = Some ob"
  shows "ob \<in> set (outbox d) \<and> out_processed ob = None \<and> OutboxRow (out_id ob) \<notin> held"
proof -
  let ?xs = "filter (\<lambda>x. out_processed x = None \<and> OutboxRow (out_id x) \<notin> held) (outbox d)"
  obtain rest where s: "sort_key out_created ?xs = ob # rest"
    using assms by (auto simp: sql_next_unlocked_def split: list.splits)
  have "ob \<in> set (sort_key out_created ?xs)" unfolding s by simp
  then show ?thesis by simp
qed

lemma safe_marked:
  assumes B: "stays lk B" and ob: "OutboxRow (out_id ob) \<in> lk"
    and locked: "\<And>d. B d \<Longrightarrow> filter (\<lambda>x. out_id x = out_id ob) (outbox d) = obs" "ob \<in> set obs" "out_processed ob = None"
    and settled: "\<And>d. B d \<Longrightarrow> sound_tables L d \<Longrightarrow> outbox (apply_writes ws d) = outbox d \<and>
      leaves_alone lk d (apply_writes ws d) \<and> row_settled L ob fu d (apply_writes ws d)"
  shows "safe_tx L lk ws B (sql (\<lambda>_. []) (sql_mark_processed (out_id ob)) (\<lambda>_. Return x))"
proof (rule tables.safe_sql)
  fix held :: "lock set" and g d and y :: unit and v'
  assume d: "B d" "sound_tables L d" and v': "sql_mark_processed (out_id ob) g (apply_writes ws d) = Inr (y, v')"
  let ?us = "ws @ writes_of (apply_writes ws d) v'"
  have us: "apply_writes ?us e = mark_processed (out_id ob) (g_now g) (apply_writes ws e)"
    if "B e" "sound_tables L e" for e
    using v' settled [OF d] settled [OF that] locked(1) [OF d(1)] locked(1) [OF that(1)]
      put_update [of out_id "out_id ob" "outbox e" "outbox d" "\<lambda>_. True"]
    by (auto simp: sql_mark_processed_def mark_processed_def writes_of_def)
  have "safe_tx L lk ?us B (Return x)"
  proof (rule tables.safe_return)
    fix e
    assume e: "B e" "sound_tables L e"
    have "ob \<in> set (filter (\<lambda>x. out_id x = out_id ob) (outbox e))" using locked e(1) by simp
    then have "ob \<in> set (outbox e)" by simp
    then have "outbox_serves L ob fu e (apply_writes ?us e)"
      unfolding us [OF e] outbox_serves_def using locked(3) settled [OF e]
      by (intro conjI exI [of _ "apply_writes ws e"] exI [of _ "g_now g"]) simp_all
    moreover have "leaves_alone lk e (apply_writes ?us e)"
      unfolding us [OF e] using settled [OF e] by (intro tables.leaves_trans [OF _ leaves_marked [OF ob]]) simp
    ultimately show "db_run L e (apply_writes ?us e) \<and> leaves_alone lk e (apply_writes ?us e)"
      by (auto intro: step_run outbox_served)
  qed
  then show "\<exists>B us. stays (lk \<union> set []) B \<and> B d \<and>
      (\<forall>e. B e \<longrightarrow> apply_writes (writes_of (apply_writes ws d) v') (apply_writes ws e) = apply_writes us e) \<and>
      safe_tx L (lk \<union> set []) us B (Return x)"
    using B d by (intro exI [of _ B] exI [of _ ?us]) simp
qed

text \<open>A row of a consistent outbox names a payment or a refund that is there.\<close>

lemma sound_outbox_row:
  assumes "sound_tables L d" and "ob \<in> set (outbox d)"
  obtains (payment) p where "p \<in> set (payments d)" "names_payment L ob (pay_id p)"
    | (refund) r where "r \<in> set (refunds d)" "names_refund L ob (ref_id r)" "sql_refund_with_payment (ref_id r) d \<noteq> None"
proof -
  have c: "consistent L d" using assms(1) by (simp add: sound_tables_def)
  have "sql_refund_with_payment (ref_id r) d \<noteq> None" if "r \<in> set (refunds d)" for r
  proof -
    have "find (\<lambda>x. ref_id x = ref_id r) (refunds d) = Some r"
      using find_distinct [of ref_id "refunds d" r] that consistentD(1) [OF c] by (simp add: unique_keys_def)
    moreover have "find (\<lambda>p. pay_id p = ref_payment r) (payments d) \<noteq> None"
      using refund_ok_payment [OF consistentD(4) [OF c that]] by (auto simp: find_None_in)
    ultimately show ?thesis by (auto simp: sql_refund_with_payment_def)
  qed
  then show ?thesis
    using consistentD(6) [OF c] assms(2) that unfolding outbox_ok_def by blast
qed

lemma kinds_differ: "kind_refund_settlement \<noteq> kind_payment_settlement"
  by (simp add: kind_payment_settlement_def kind_refund_settlement_def)

lemma safe_outbox_worker: "safe_tx L {} [] (\<lambda>_. True) (process_outbox_prog L)"
  unfolding process_outbox_prog_def
proof (rule tables.safe_sql_unlocked)
  fix held g d x v'
  assume d: "sound_tables L d" and r: "Inr (sql_next_unlocked held (apply_writes [] d), apply_writes [] d) = (Inr (x, v') :: err + _)"
  show "\<exists>B us. stays ({} \<union> set (case x of None \<Rightarrow> [] | Some ob \<Rightarrow> [OutboxRow (out_id ob)])) B \<and> B d \<and>
      (\<forall>e. B e \<longrightarrow> apply_writes (writes_of (apply_writes [] d) v') (apply_writes [] e) = apply_writes us e) \<and>
      safe_tx L ({} \<union> set (case x of None \<Rightarrow> [] | Some ob \<Rightarrow> [OutboxRow (out_id ob)])) us B
       (case x of
          None \<Rightarrow> Done \<lparr>fu_payment = None, fu_refund = None\<rparr>
        | Some ob \<Rightarrow> settle_row_prog L ob (\<lambda>fu. sql (\<lambda>_. []) (sql_mark_processed (out_id ob)) (\<lambda>_. Return fu)))"
  proof (cases x)
    case None
    then show ?thesis
      using r by (intro exI [of _ "\<lambda>_. True"] exI [of _ "[]"]) (simp add: writes_of_def tables.safe_done)
  next
    case (Some ob)
    let ?obs = "filter (\<lambda>x. out_id x = out_id ob) (outbox d)"
    let ?lk = "{OutboxRow (out_id ob)}"
    let ?B = "\<lambda>e. filter (\<lambda>x. out_id x = out_id ob) (outbox e) = ?obs"
    have ob: "ob \<in> set (outbox d)" "out_processed ob = None" and v': "v' = d"
      using r Some next_unlocked_Some [of held d ob] by auto
    then have obs: "ob \<in> set ?obs" "?obs \<noteq> []" by (auto simp: filter_empty_conv)
    have B: "stays ?lk ?B" using obs(2) by (intro stays_outbox) simp_all
    have there: "ob \<in> set (outbox e)" if "?B e" for e
    proof -
      have "ob \<in> set (filter (\<lambda>x. out_id x = out_id ob) (outbox e))" using that obs(1) by simp
      then show ?thesis by simp
    qed
    note rt = uuid_roundtripD [of L]
    have "safe_tx L ?lk [] ?B (settle_row_prog L ob (\<lambda>fu. sql (\<lambda>_. []) (sql_mark_processed (out_id ob)) (\<lambda>_. Return fu)))"
    proof (rule sound_outbox_row [OF d ob(1)])
      fix p
      assume p: "p \<in> set (payments d)" "names_payment L ob (pay_id p)"
      let ?fu = "\<lparr>fu_payment = Some (pay_id p), fu_refund = None\<rparr>"
      have parse: "l_uuid_parse L (l_uuid_string L (pay_id p)) = Some (pay_id p)"
        using d rt by (simp add: sound_tables_def)
      have "safe_tx L ?lk [] ?B (payment_settle_prog (pay_id p)
          (sql (\<lambda>_. []) (sql_mark_processed (out_id ob)) (\<lambda>_. Return ?fu)))"
      proof (rule safe_payment_settle [OF B], goal_cases)
        case (1 e)
        then have False
          using sound_outbox_row [OF 1(2) there [OF 1(1)]] p(2) names_inj [of L] names_either
          by (metis image_eqI sound_tables_def)
        then show ?case ..
      next
        case (2 lk ws C)
        note go = 2(4)
        show ?case
        proof (rule safe_marked [OF 2(1) _ 2(3) obs(1) ob(2), where fu = ?fu], goal_cases)
          case (3 e)
          then show ?case
            using go [of e] parse p(2) by (auto simp: payment_done_def row_settled_def names_payment_def)
        qed (use 2(2) in auto)
      qed
      then show ?thesis
        using p(2) parse names_payment_field [OF p(2)] by (simp add: settle_row_prog_def names_payment_def)
    next
      fix r
      assume p: "r \<in> set (refunds d)" "names_refund L ob (ref_id r)"
      let ?fu = "\<lparr>fu_payment = None, fu_refund = Some (ref_id r)\<rparr>"
      have parse: "l_uuid_parse L (l_uuid_string L (ref_id r)) = Some (ref_id r)"
        using d rt by (simp add: sound_tables_def)
      have "safe_tx L ?lk [] ?B (refund_settle_prog L (ref_id r)
          (sql (\<lambda>_. []) (sql_mark_processed (out_id ob)) (\<lambda>_. Return ?fu)))"
      proof (rule safe_refund_settle [OF B], goal_cases)
        case (1 e)
        then have False
          using sound_outbox_row [OF 1(2) there [OF 1(1)]] p(2) names_inj [of L] names_either
          by (metis sound_tables_def)
        then show ?case ..
      next
        case (2 lk ws C)
        note go = 2(4)
        show ?case
        proof (rule safe_marked [OF 2(1) _ 2(3) obs(1) ob(2), where fu = ?fu], goal_cases)
          case (3 e)
          then show ?case
            using go [of e] parse p(2) by (auto simp: refund_done_def row_settled_def names_refund_def)
        qed (use 2(2) in auto)
      qed
      then show ?thesis
        using p(2) parse names_refund_field [OF p(2)] kinds_differ by (simp add: settle_row_prog_def names_refund_def)
    qed
    then show ?thesis
      using B unfolding Some option.case v'
      by (intro exI [of _ ?B] exI [of _ "[]"]) (simp add: writes_of_def)
  qed
qed
section \<open>The platform with transactions side by side\<close>

text \<open>
  What else moves the tables while transactions are open: the steps that do not touch payments,
  refunds, ledger and outbox (onboarding, keys, users, webhooks, deliveries, audit rows), each at once.
\<close>

definition outside :: "lib \<Rightarrow> db \<Rightarrow> db \<Rightarrow> bool" where
  "outside L d d' \<longleftrightarrow> db_step L d d' \<and> payments d' = payments d \<and> refunds d' = refunds d \<and>
     ledger d' = ledger d \<and> outbox d' = outbox d"

abbreviation platform_run :: "lib \<Rightarrow> system \<Rightarrow> system \<Rightarrow> bool" where
  "platform_run L \<equiv> sys_run (begins L) (outside L)"

lemma tenants_stay: "db_step L d d' \<Longrightarrow> ten_id ` set (tenants d) \<subseteq> ten_id ` set (tenants d')"
proof (induction rule: db_step.induct)
  case (webhook_set d tid url secret)
  show ?case by (simp add: ids_update_where)
qed (auto simp: accepted_def Let_def settled_once_def refund_accepted_def refund_settled_once_def outbox_serves_def
    row_settled_def mark_processed_def delivery_added_def deliveries_moved_def tenant_created_def)

lemma outside_leaves: "outside L d d' \<Longrightarrow> db_run L d d' \<and> leaves_alone {} d d'"
proof (intro conjI)
  assume o: "outside L d d'"
  then show "db_run L d d'" by (auto simp: outside_def intro: step_run)
  have "unchanged x d d'" for x using o by (cases x) (simp_all add: outside_def)
  moreover have "only_grows d d'" using o tenants_stay [of L d d'] by (simp add: outside_def only_grows_def)
  ultimately show "leaves_alone {} d d'" by (simp add: tables.leaves_def)
qed

lemma begins_safe: "begins L p \<Longrightarrow> safe_tx L {} [] (\<lambda>_. True) p"
proof (induction rule: begins.induct)
  case begin_payment
  then show ?case by (intro tables.safe_forget safe_payment)
qed (intro tables.safe_forget safe_refund safe_payment_settlement safe_refund_settlement safe_outbox_worker)+

lemmas platform_interleaved = tables.interleaved_runs [OF _ _ begins_safe outside_leaves]

section \<open>Alone among the others\<close>

lemma others_hold_own [simp]:
  "others_hold i (set_session i t s) = others_hold i s" "others_hold i (s\<lparr>sys_db := d\<rparr>) = others_hold i s"
  by (auto simp: others_hold_def)

text \<open>A successful serial run is one of the interleavings, whoever else has begun and holds nothing yet.\<close>

lemma serial_run:
  assumes "serial p w = (Inr x, w')" and "sys_ses s i = Some t" and "ses_prog t = forget p"
    and "others_hold i s = {}" and "w_db w = sys_db s" and "w_tx w = view (sys_db s) t"
  shows "sys_run starts env s (set_session i None (s\<lparr>sys_db := w_db w'\<rparr>))"
  using assms
proof (induction p arbitrary: w s t)
  case (Return y)
  then have "w_db w' = view (sys_db s) t"
    by (auto simp: op_then_def commit_tx_def op_ok_def split: fault.splits)
  moreover have "sys_step starts env s (set_session i None (s\<lparr>sys_db := view (sys_db s) t\<rparr>))"
    by (rule committing [of _ _ _ "()"]) (use Return.prems in \<open>simp_all add: forget_def\<close>)
  ultimately show ?case by auto
next
  case (Done y)
  then have "w_db w' = sys_db s" by (auto simp: op_ok_def)
  then show ?case using Done.prems(2) by (auto intro: ending)
next
  case (Throw e)
  then show ?case by (simp add: op_err_def)
next
  case (Stmt f k)
  obtain l ws where f: "f {} (gen_of w) (w_tx w) = Inr (l, ws)"
    using Stmt.prems(1) by (auto split: if_splits sum.splits)
  let ?u = "(spend w)\<lparr>w_tx := apply_writes ws (w_tx w)\<rparr>"
  let ?t = "\<lparr>ses_prog = forget (k {} (gen_of w) (w_tx w)), ses_writes = ses_writes t @ ws, ses_locks = ses_locks t \<union> set l\<rparr>"
  let ?s = "set_session i (Some ?t) s"
  have k: "serial (k {} (gen_of w) (w_tx w)) ?u = (Inr x, w')"
    using Stmt.prems(1) f by (auto simp: Let_def split: if_splits)
  have "sys_step starts env s ?s"
    using statement [of s i t f "\<lambda>h g v. forget (k h g v)" "gen_of w" l ws starts env] Stmt.prems f
    by (simp add: forget_def o_def)
  moreover have "sys_run starts env ?s (set_session i None (?s\<lparr>sys_db := w_db w'\<rparr>))"
  proof (rule Stmt.IH [OF rangeI rangeI rangeI k, of ?s ?t])
    show "others_hold i ?s = {}" using Stmt.prems(4) by simp
  qed (use Stmt.prems in \<open>simp_all add: view_def\<close>)
  moreover have "set_session i None (?s\<lparr>sys_db := w_db w'\<rparr>) = set_session i None (s\<lparr>sys_db := w_db w'\<rparr>)"
    by (simp add: set_session_def)
  ultimately show ?case by (simp add: converse_rtranclp_into_rtranclp)
qed

lemma with_tx_serial:
  assumes "with_tx (serial p) w = (Inr x, w')"
  obtains w1 w2 where "serial p w1 = (Inr x, w2)" "w_db w1 = w_db w" "w_tx w1 = w_db w" "w_db w2 = w_db w'"
  using assms by (auto simp: with_tx_def op_then_def begin_tx_def defer_rollback_def split: prod.splits sum.splits if_splits)


section \<open>A run with two submissions\<close>

text \<open>
  From empty tables: a tenant is onboarded, two submissions under the same key begin, and one of them goes
  through while the other has yet to execute its first statement.
\<close>

definition demo_tables :: db where
  "demo_tables = empty_db\<lparr>
     tenants := [\<lparr>ten_id = 1, ten_name = ''Shop'', ten_created = 0, ten_webhook_url = None, ten_webhook_secret = None\<rparr>],
     api_keys := [\<lparr>key_id = 2, key_tenant = 1, key_hash = hash_api_key ref_lib ''pf_live_a'', key_prefix = ''pf_live_'',
       key_created = 0, key_revoked = None\<rparr>],
     audits := [\<lparr>aud_id = 3, aud_tenant = Some 1, aud_event = ''tenant_created'', aud_metadata = JObj [], aud_created = 0\<rparr>,
       \<lparr>aud_id = 4, aud_tenant = Some 1, aud_event = ''api_key_issued'', aud_metadata = JObj [], aud_created = 0\<rparr>]\<rparr>"

definition demo_prog :: "(payment \<times> bool) prog" where
  "demo_prog = payment_prog ref_lib 1 ''k1'' 250 ''EUR'' (request_fingerprint ref_lib 250 ''EUR'')"

lemma demo_outside: "outside ref_lib empty_db demo_tables"
proof -
  have trim: "trim_space ''Shop'' = ''Shop''" by code_simp
  have "tenant_created ref_lib ''Shop'' 1 ''pf_live_a'' empty_db demo_tables"
    unfolding tenant_created_def demo_tables_def trim
    by (intro conjI exI [of _ "\<lparr>ten_id = 1, ten_name = ''Shop'', ten_created = 0, ten_webhook_url = None, ten_webhook_secret = None\<rparr>"]
        exI [of _ "\<lparr>key_id = 2, key_tenant = 1, key_hash = hash_api_key ref_lib ''pf_live_a'', key_prefix = ''pf_live_'',
          key_created = 0, key_revoked = None\<rparr>"]
        exI [of _ "\<lparr>aud_id = 3, aud_tenant = Some 1, aud_event = ''tenant_created'', aud_metadata = JObj [], aud_created = 0\<rparr>"]
        exI [of _ "\<lparr>aud_id = 4, aud_tenant = Some 1, aud_event = ''api_key_issued'', aud_metadata = JObj [], aud_created = 0\<rparr>"])
      (simp_all add: empty_db_def)
  then show ?thesis
    unfolding outside_def by (intro conjI onboarded) (simp_all add: demo_tables_def empty_db_def)
qed

lemma demo_upper: "to_upper (l_upper ref_lib) (trim_space ''EUR'') = ''EUR''"
  by code_simp

lemma demo_begins: "begins ref_lib (forget demo_prog)"
  unfolding demo_prog_def by (rule begin_payment [of _ _ "''EUR''"]) (simp_all add: demo_upper)

lemma demo_serial:
  "\<exists>x w row. with_tx (serial demo_prog) (ref_world demo_tables []) = (Inr x, w) \<and>
     accepted ref_lib 1 ''k1'' 250 ''EUR'' row demo_tables (w_db w)"
proof -
  let ?w = "ref_world demo_tables []"
  have fresh: "fresh_ids 4 ?w"
    by (rule ref_fresh) (simp_all add: demo_tables_def empty_db_def used_ids_def)
  have refs: "ledger_refs (w_db ?w)" by (simp add: ledger_refs_def demo_tables_def empty_db_def)
  have valid: "valid_create ''k1'' 250 ''EUR''" by code_simp
  obtain p w where run: "payment_create ref_lib 1 ''k1'' 250 ''EUR'' ?w = (Inr (p, True), w)"
    using payment_create_succeeds [OF _ fresh refs valid, of 1 ref_lib] by (auto simp: demo_tables_def empty_db_def)
  obtain row where row: "accepted ref_lib 1 ''k1'' 250 ''EUR'' row demo_tables (w_db w)"
    using wp_Inr [OF payment_create_wp [OF refs] run] by auto
  have "\<exists>x w'. with_tx (serial demo_prog) ?w = (Inr x, w') \<and> w_db w' = w_db w"
    using run unfolding payment_create_serial valid_create_validate [OF valid] demo_upper Let_def demo_prog_def
    by (auto simp: op_then_def op_ok_def op_mod_def split: prod.splits sum.splits if_splits)
  with row show ?thesis by metis
qed

lemma demo_run:
  "\<exists>d row. accepted ref_lib 1 ''k1'' 250 ''EUR'' row demo_tables d \<and>
     platform_run ref_lib (idle empty_db) (set_session 1 (Some (fresh_session (forget demo_prog))) (idle d))"
proof -
  let ?t = "fresh_session (forget demo_prog)"
  let ?s1 = "set_session 1 (Some ?t) (idle demo_tables)"
  let ?s2 = "set_session 0 (Some ?t) ?s1"
  obtain x w row where w: "with_tx (serial demo_prog) (ref_world demo_tables []) = (Inr x, w)"
    and row: "accepted ref_lib 1 ''k1'' 250 ''EUR'' row demo_tables (w_db w)"
    using demo_serial by blast
  obtain w1 w2 where run: "serial demo_prog w1 = (Inr x, w2)" and ws: "w_db w1 = demo_tables" "w_tx w1 = demo_tables" "w_db w2 = w_db w"
    by (rule with_tx_serial [OF w]) simp
  have "platform_run ref_lib (idle empty_db) (idle demo_tables)"
    using elsewhere [of "outside ref_lib" "idle empty_db" demo_tables "begins ref_lib"] demo_outside by (auto simp: idle_def)
  also have "platform_run ref_lib (idle demo_tables) ?s1"
    by (intro r_into_rtranclp starting demo_begins) (simp add: idle_def)
  also have "platform_run ref_lib ?s1 ?s2"
    by (intro r_into_rtranclp starting demo_begins) (simp add: idle_def)
  also have "platform_run ref_lib ?s2 (set_session 0 None (?s2\<lparr>sys_db := w_db w2\<rparr>))"
    by (rule serial_run [OF run, of _ _ ?t])
      (auto simp: fresh_session_def others_hold_def idle_def view_def ws set_session_def)
  also have "set_session 0 None (?s2\<lparr>sys_db := w_db w2\<rparr>) = set_session 1 (Some ?t) (idle (w_db w))"
    by (simp add: set_session_def idle_def ws fun_eq_iff)
  finally show ?thesis using row by blast
qed

section \<open>Side by side\<close>

text \<open>
  C10: what a payment's or a refund's creation, a settlement or a turn of the outbox does when it succeeds
  is among the interleaved runs of the platform.
\<close>

theorem serial_is_interleaved:
  assumes "begins L (forget p)" and "with_tx (serial p) w = (Inr x, w')"
  shows "platform_run L (idle (w_db w)) (idle (w_db w'))"
proof -
  let ?s = "set_session 0 (Some (fresh_session (forget p))) (idle (w_db w))"
  obtain w1 w2 where run: "serial p w1 = (Inr x, w2)" and w: "w_db w1 = w_db w" "w_tx w1 = w_db w" "w_db w2 = w_db w'"
    by (rule with_tx_serial [OF assms(2)])
  have "platform_run L (idle (w_db w)) ?s"
    by (intro r_into_rtranclp starting assms(1)) (simp add: idle_def)
  also have "platform_run L ?s (set_session 0 None (?s\<lparr>sys_db := w_db w2\<rparr>))"
    by (rule serial_run [OF run, of _ _ "fresh_session (forget p)"])
      (simp_all add: fresh_session_def others_hold_def idle_def view_def w)
  also have "set_session 0 None (?s\<lparr>sys_db := w_db w2\<rparr>) = idle (w_db w')"
    by (simp add: set_session_def idle_def w(3) fun_eq_iff)
  finally show ?thesis .
qed

theorem serial_is_interleaved_witness:
  "\<exists>d row. accepted ref_lib 1 ''k1'' 250 ''EUR'' row demo_tables d \<and> platform_run ref_lib (idle demo_tables) (idle d)"
proof -
  obtain x w row where w: "with_tx (serial demo_prog) (ref_world demo_tables []) = (Inr x, w)"
    and row: "accepted ref_lib 1 ''k1'' 250 ''EUR'' row demo_tables (w_db w)"
    using demo_serial by blast
  show ?thesis using serial_is_interleaved [OF demo_begins w] row by auto
qed

text \<open>
  C2: with any number of transactions open at once, whatever the interleaving of their statements, the
  committed tables have gone through whole business transactions only.
\<close>

theorem concurrent_refines:
  assumes "sound_tables L d" and "platform_run L (idle d) s"
  shows "db_run L d (sys_db s)"
  using platform_interleaved [OF assms(2,1)] rtranclp_idemp [of "db_step L"] by simp

theorem concurrent_refines_witness:
  "\<exists>d row. accepted ref_lib 1 ''k1'' 250 ''EUR'' row demo_tables d \<and> db_run ref_lib empty_db d"
proof -
  have "sound_tables ref_lib empty_db"
    using ref_lib_roundtrip consistent_empty [of ref_lib] by (simp add: sound_tables_def)
  moreover obtain d row where "accepted ref_lib 1 ''k1'' 250 ''EUR'' row demo_tables d"
      "platform_run ref_lib (idle empty_db) (set_session 1 (Some (fresh_session (forget demo_prog))) (idle d))"
    using demo_run by blast
  ultimately show ?thesis using concurrent_refines [of ref_lib empty_db] by (fastforce simp: idle_def)
qed



text \<open>
  C8: no deadlock: in every reachable state with an open transaction there is one that need not wait,
  whatever each would draw.
\<close>

theorem concurrent_no_deadlock:
  assumes "platform_run L (idle d) s" and "sys_ses s i = Some t"
  shows "\<exists>j u. sys_ses s j = Some u \<and> \<not> waits j (gs j) s"
  by (rule somebody_moves [OF ordered_run [OF assms(1) begins_ordered] assms(2)])

theorem concurrent_no_deadlock_witness:
  "\<exists>d row. accepted ref_lib 1 ''k1'' 250 ''EUR'' row demo_tables d \<and>
     \<not> waits 1 (gen_of (ref_world empty_db [])) (set_session 1 (Some (fresh_session (forget demo_prog))) (idle d))"
proof -
  obtain d row where d: "accepted ref_lib 1 ''k1'' 250 ''EUR'' row demo_tables d"
      "platform_run ref_lib (idle empty_db) (set_session 1 (Some (fresh_session (forget demo_prog))) (idle d))"
    using demo_run by blast
  have "\<exists>j u. sys_ses (set_session 1 (Some (fresh_session (forget demo_prog))) (idle d)) j = Some u \<and>
      \<not> waits j (gen_of (ref_world empty_db [])) (set_session 1 (Some (fresh_session (forget demo_prog))) (idle d))"
    by (rule concurrent_no_deadlock [OF d(2), of 1 _ "\<lambda>_. gen_of (ref_world empty_db [])"]) simp
  then show ?thesis using d(1) by (auto simp: idle_def split: if_splits)
qed

end
